theory Spec2Isabelle
  imports Complex_Main "HOL-Library.Sublist"
begin

section \<open>Errors and JavaScript numbers\<close>

text \<open>
  The program is TypeScript. A read of a property of \<open>undefined\<close> (an array read outside
  the array, or at the index \<open>NaN\<close>) raises a TypeError; every such read of the source is a
  branch of the model. A recursion that does not come back is the value \<open>None\<close> of the
  fuel-indexed functions below, kept apart from the TypeError.

  Numbers are modelled as exact reals. The value \<open>NaN\<close>, which the source uses as the
  "no selection" sentinel and as the "no intersection" result, is the value \<open>None\<close> of an
  option type.
\<close>

datatype error = TypeError

text \<open>\<open>xs[i]\<close> for a JavaScript number \<open>i\<close> holding an integer: \<open>undefined\<close> outside the array.\<close>

definition arrayAt :: "'a list \<Rightarrow> int \<Rightarrow> 'a option" where
  "arrayAt xs i = (if 0 \<le> i \<and> i < int (length xs) then Some (xs ! nat i) else None)"

section \<open>Vectors, quaternions and matrices (lib/TSM)\<close>

text \<open>
  Modelled from the spec: the vector, quaternion and matrix library \<open>lib/TSM.js\<close> that
  \<open>Scene.ts\<close> and \<open>Gui.ts\<close> import is not among the sources. Section 2 of the spec
  assumes it "available with standard operations (compose, invert, axis-angle construction,
  spherical interpolation)"; the definitions below are those standard operations, over exact
  reals, with a matrix stored by columns as the source's \<open>new Mat3([...])\<close> and
  \<open>new Mat4([...])\<close> literals are.
\<close>

datatype vec3 = Vec3 (vx: real) (vy: real) (vz: real)
datatype quat = Quat (qx: real) (qy: real) (qz: real) (qw: real)
type_synonym vec4 = "real \<times> real \<times> real \<times> real"
datatype mat4 = Mat4 (col0: vec4) (col1: vec4) (col2: vec4) (col3: vec4)

definition difference :: "vec3 \<Rightarrow> vec3 \<Rightarrow> vec3" where
  "difference a b = Vec3 (vx a - vx b) (vy a - vy b) (vz a - vz b)"

definition squaredLength :: "vec3 \<Rightarrow> real" where
  "squaredLength v = vx v * vx v + vy v * vy v + vz v * vz v"

definition distance :: "vec3 \<Rightarrow> vec3 \<Rightarrow> real" where
  "distance a b = sqrt (squaredLength (difference a b))"

definition setIdentityQ :: quat where
  "setIdentityQ = Quat 0 0 0 1"

definition productQ :: "quat \<Rightarrow> quat \<Rightarrow> quat" where
  "productQ q1 q2 =
     (case q1 of Quat x1 y1 z1 w1 \<Rightarrow> case q2 of Quat x2 y2 z2 w2 \<Rightarrow>
     Quat (x1 * w2 + w1 * x2 + y1 * z2 - z1 * y2)
          (y1 * w2 + w1 * y2 + z1 * x2 - x1 * z2)
          (z1 * w2 + w1 * z2 + x1 * y2 - y1 * x2)
          (w1 * w2 - x1 * x2 - y1 * y2 - z1 * z2))"

definition fromAxisAngle :: "vec3 \<Rightarrow> real \<Rightarrow> quat" where
  "fromAxisAngle axis angle =
     (let a = angle * 0.5; s = sin a
      in Quat (vx axis * s) (vy axis * s) (vz axis * s) (cos a))"

definition toMat4 :: "quat \<Rightarrow> mat4" where
  "toMat4 q =
     (case q of Quat x y z w \<Rightarrow>
      let x2 = x + x; y2 = y + y; z2 = z + z;
          xx = x * x2; xy = x * y2; xz = x * z2;
          yy = y * y2; yz = y * z2; zz = z * z2;
          wx = w * x2; wy = w * y2; wz = w * z2
      in Mat4 (1 - (yy + zz), xy + wz, xz - wy, 0)
              (xy - wz, 1 - (xx + zz), yz + wx, 0)
              (xz + wy, yz - wx, 1 - (xx + yy), 0)
              (0, 0, 0, 1))"

definition setIdentity :: mat4 where
  "setIdentity = Mat4 (1, 0, 0, 0) (0, 1, 0, 0) (0, 0, 1, 0) (0, 0, 0, 1)"

definition multiplyVec4 :: "mat4 \<Rightarrow> vec4 \<Rightarrow> vec4" where
  "multiplyVec4 m v =
     (case m of Mat4 (a0, a1, a2, a3) (b0, b1, b2, b3) (c0, c1, c2, c3) (d0, d1, d2, d3) \<Rightarrow>
      case v of (x, y, z, w) \<Rightarrow>
     (a0 * x + b0 * y + c0 * z + d0 * w,
      a1 * x + b1 * y + c1 * z + d1 * w,
      a2 * x + b2 * y + c2 * z + d2 * w,
      a3 * x + b3 * y + c3 * z + d3 * w))"

definition product :: "mat4 \<Rightarrow> mat4 \<Rightarrow> mat4" where
  "product m n =
     Mat4 (multiplyVec4 m (col0 n)) (multiplyVec4 m (col1 n)) (multiplyVec4 m (col2 n))
          (multiplyVec4 m (col3 n))"

definition translate :: "mat4 \<Rightarrow> vec3 \<Rightarrow> mat4" where
  "translate m v =
     (case m of Mat4 (a0, a1, a2, a3) (b0, b1, b2, b3) (c0, c1, c2, c3) (d0, d1, d2, d3) \<Rightarrow>
      case v of Vec3 x y z \<Rightarrow>
      Mat4 (a0, a1, a2, a3) (b0, b1, b2, b3) (c0, c1, c2, c3)
           (d0 + (a0 * x + b0 * y + c0 * z), d1 + (a1 * x + b1 * y + c1 * z),
            d2 + (a2 * x + b2 * y + c2 * z), d3 + (a3 * x + b3 * y + c3 * z)))"

definition multiplyPt3 :: "mat4 \<Rightarrow> vec3 \<Rightarrow> vec3" where
  "multiplyPt3 m v =
     (case m of Mat4 (a0, a1, a2, a3) (b0, b1, b2, b3) (c0, c1, c2, c3) (d0, d1, d2, d3) \<Rightarrow>
      case v of Vec3 x y z \<Rightarrow>
      Vec3 (a0 * x + b0 * y + c0 * z + d0)
           (a1 * x + b1 * y + c1 * z + d1)
           (a2 * x + b2 * y + c2 * z + d2))"

definition multiplyVec3 :: "mat4 \<Rightarrow> vec3 \<Rightarrow> vec3" where
  "multiplyVec3 m v =
     (case m of Mat4 (a0, a1, a2, a3) (b0, b1, b2, b3) (c0, c1, c2, c3) (d0, d1, d2, d3) \<Rightarrow>
      case v of Vec3 x y z \<Rightarrow>
      Vec3 (a0 * x + b0 * y + c0 * z)
           (a1 * x + b1 * y + c1 * z)
           (a2 * x + b2 * y + c2 * z))"

definition unitQ :: "quat \<Rightarrow> bool" where
  "unitQ q \<longleftrightarrow> qx q * qx q + qy q * qy q + qz q * qz q + qw q * qw q = 1"

definition affine :: "mat4 \<Rightarrow> bool" where
  "affine m \<longleftrightarrow>
     (case m of Mat4 (a0, a1, a2, a3) (b0, b1, b2, b3) (c0, c1, c2, c3) (d0, d1, d2, d3) \<Rightarrow>
       a3 = 0 \<and> b3 = 0 \<and> c3 = 0 \<and> d3 = 1)"

definition rigid :: "mat4 \<Rightarrow> bool" where
  "rigid m \<longleftrightarrow> affine m \<and> (\<forall>p q. distance (multiplyPt3 m p) (multiplyPt3 m q) = distance p q)"


section \<open>GUI: mode and playback cursor (Gui.ts)\<close>

datatype Mode = playback | edit

text \<open>
  The fields of class \<open>GUI\<close> that the mode machine, the picking pass and the key handlers
  read or write. The camera is not modelled; \<open>cameraMoves\<close> counts the calls made to it.
\<close>

record 'k gui =
  keyFrames :: "'k list"
  selectedBone :: "nat option"
  dragging :: bool
  boneDragging :: bool
  time :: real
  mode :: Mode
  cameraMoves :: nat

definition getNumKeyFrames :: "'k gui \<Rightarrow> nat" where
  "getNumKeyFrames g = length (keyFrames g)"

definition getMaxTime :: "'k gui \<Rightarrow> real" where
  "getMaxTime g = real (length (keyFrames g)) - 1"

text \<open>\<open>GUI.incrementTime\<close>.\<close>

definition incrementTime :: "real \<Rightarrow> 'k gui \<Rightarrow> 'k gui" where
  "incrementTime dT g =
     (if mode g = playback then
        (let g1 = g\<lparr>time := time g + dT\<rparr>
         in if time g1 \<ge> getMaxTime g1 then g1\<lparr>time := 0, mode := edit\<rparr> else g1)
      else g)"

text \<open>The \<open>KeyP\<close> case of \<open>GUI.onKeydown\<close>.\<close>

definition onKeyP :: "'k gui \<Rightarrow> 'k gui" where
  "onKeyP g =
     (if mode g = edit \<and> getNumKeyFrames g > 1 then g\<lparr>mode := playback, time := 0\<rparr>
      else if mode g = playback then g\<lparr>mode := edit\<rparr>
      else g)"




text \<open>A run of animation ticks: \<open>incrementTime\<close> once per frame, with the frame's elapsed time.\<close>

definition ticks :: "real list \<Rightarrow> 'k gui \<Rightarrow> 'k gui" where
  "ticks dTs g = fold incrementTime dTs g"

definition gui0 :: "nat gui" where
  "gui0 = \<lparr>keyFrames = [], selectedBone = None, dragging = False, boneDragging = False,
           time = 0, mode = edit, cameraMoves = 0\<rparr>"


section \<open>Skeleton (Scene.ts, later revision)\<close>

text \<open>
  The sources hold two revisions of \<open>Scene.ts\<close>. This section embeds the later one, the
  revision that \<open>App.ts\<close> and the later \<open>Gui.ts\<close> call (it has
  \<open>calculateD_iAndTranslate\<close> and a \<open>Bone\<close> constructor that accepts a \<open>Bone\<close>). Every
  assignment to a field of a bone stores a fresh copy there, so a bone is a record of values.

  The recursive methods take fuel: \<open>None\<close> is a recursion that has not come back within the
  fuel, \<open>Some (Inl TypeError)\<close> a read of a property of \<open>undefined\<close>, \<open>Some (Inr v)\<close> a
  return.
\<close>

definition bindR :: "(error + 'a) option \<Rightarrow> ('a \<Rightarrow> (error + 'b) option) \<Rightarrow> (error + 'b) option" where
  "bindR m f = (case m of None \<Rightarrow> None | Some (Inl e) \<Rightarrow> Some (Inl e) | Some (Inr x) \<Rightarrow> f x)"

record boneLoader =
  l_parent :: int
  l_children :: "int list"
  l_position :: vec3
  l_endpoint :: vec3
  l_rotation :: quat

record bone =
  parent :: int
  children :: "int list"
  position :: vec3
  endpoint :: vec3
  rotation :: quat
  isHighlight :: bool
  T_ij :: mat4
  R_i :: quat
  initPosition :: vec3
  initEndpoint :: vec3

definition rotateBone :: "vec3 \<Rightarrow> real \<Rightarrow> bone \<Rightarrow> bone" where
  "rotateBone axis angle b = b\<lparr>R_i := productQ (R_i b) (fromAxisAngle axis angle)\<rparr>"

fun getU_i :: "nat \<Rightarrow> bone list \<Rightarrow> int \<Rightarrow> (error + mat4) option" where
  "getU_i 0 bones b = None"
| "getU_i (Suc n) bones b =
     (case arrayAt bones b of
        None \<Rightarrow> Some (Inl TypeError)
      | Some curBone \<Rightarrow>
          if parent curBone = -1 then Some (Inr (translate setIdentity (initPosition curBone)))
          else bindR (getU_i n bones (parent curBone))
                 (\<lambda>U_parent. Some (Inr (product U_parent (T_ij curBone)))))"

fun getD_i :: "nat \<Rightarrow> bone list \<Rightarrow> int \<Rightarrow> (error + mat4) option" where
  "getD_i 0 bones b = None"
| "getD_i (Suc n) bones b =
     (case arrayAt bones b of
        None \<Rightarrow> Some (Inl TypeError)
      | Some curBone \<Rightarrow>
          if parent curBone = -1 then Some (Inr (product (T_ij curBone) (toMat4 (R_i curBone))))
          else bindR (getD_i n bones (parent curBone))
                 (\<lambda>D_parent. Some (Inr (product D_parent
                                        (product (T_ij curBone) (toMat4 (R_i curBone)))))))"

fun getR_i :: "nat \<Rightarrow> bone list \<Rightarrow> int \<Rightarrow> (error + quat) option" where
  "getR_i 0 bones b = None"
| "getR_i (Suc n) bones b =
     (case arrayAt bones b of
        None \<Rightarrow> Some (Inl TypeError)
      | Some curBone \<Rightarrow>
          if parent curBone = -1 then Some (Inr (R_i curBone))
          else bindR (getR_i n bones (parent curBone))
                 (\<lambda>R_parent. Some (Inr (productQ R_parent (R_i curBone)))))"

definition setPosition :: "mat4 \<Rightarrow> bone \<Rightarrow> bone" where
  "setPosition D_i b =
     b\<lparr>position := multiplyPt3 D_i (Vec3 0 0 0),
       endpoint := multiplyPt3 D_i (difference (initEndpoint b) (initPosition b))\<rparr>"

definition calculateBranch :: "nat \<Rightarrow> bone list \<Rightarrow> int \<Rightarrow> bone \<Rightarrow> mat4 option \<Rightarrow> (error + mat4) option" where
  "calculateBranch fuel bones b boneInstance D_parent =
     (case D_parent of
        None \<Rightarrow> getD_i fuel bones b
      | Some D \<Rightarrow> Some (Inr (product D (product (T_ij boneInstance) (toMat4 (R_i boneInstance))))))"

fun calculateD_iAndTranslate :: "nat \<Rightarrow> bone list \<Rightarrow> int \<Rightarrow> mat4 option \<Rightarrow> (error + bone list) option"
  and calculateChildren :: "nat \<Rightarrow> bone list \<Rightarrow> int list \<Rightarrow> mat4 \<Rightarrow> (error + bone list) option"
where
  "calculateD_iAndTranslate 0 bones b D_parent = None"
| "calculateD_iAndTranslate (Suc n) bones b D_parent =
     (case arrayAt bones b of
        None \<Rightarrow> Some (Inl TypeError)
      | Some boneInstance \<Rightarrow>
          bindR (calculateBranch (Suc n) bones b boneInstance D_parent)
            (\<lambda>D_i. bindR (calculateChildren n bones (children boneInstance) D_i)
               (\<lambda>bones'. Some (Inr (bones'[nat b := setPosition D_i (bones' ! nat b)])))))"
| "calculateChildren n bones [] D_i = Some (Inr bones)"
| "calculateChildren n bones (c # cs) D_i =
     bindR (calculateD_iAndTranslate n bones c (Some D_i))
       (\<lambda>bones'. calculateChildren n bones' cs D_i)"

definition updateBranch ::
  "nat \<Rightarrow> bone list \<Rightarrow> int \<Rightarrow> bone \<Rightarrow> mat4 option \<Rightarrow> quat option \<Rightarrow> (error + mat4 \<times> quat) option" where
  "updateBranch fuel bones b boneInstance D_parent rot_parent =
     (case (D_parent, rot_parent) of
        (Some D, Some r) \<Rightarrow>
          Some (Inr (product D (product (T_ij boneInstance) (toMat4 (R_i boneInstance))),
                     productQ r (R_i boneInstance)))
      | _ \<Rightarrow>
          bindR (getD_i fuel bones b)
            (\<lambda>D. bindR (getR_i fuel bones b) (\<lambda>r. Some (Inr (D, r)))))"

fun updateMesh :: "nat \<Rightarrow> bone list \<Rightarrow> int \<Rightarrow> mat4 option \<Rightarrow> quat option \<Rightarrow> (error + bone list) option"
  and updateMeshChildren :: "nat \<Rightarrow> bone list \<Rightarrow> int list \<Rightarrow> mat4 \<Rightarrow> quat \<Rightarrow> (error + bone list) option"
where
  "updateMesh 0 bones b D_parent rot_parent = None"
| "updateMesh (Suc n) bones b D_parent rot_parent =
     (case arrayAt bones b of
        None \<Rightarrow> Some (Inl TypeError)
      | Some boneInstance \<Rightarrow>
          bindR (updateBranch (Suc n) bones b boneInstance D_parent rot_parent)
            (\<lambda>(D_i, rotation_i).
               bindR (updateMeshChildren n bones (children boneInstance) D_i rotation_i)
                 (\<lambda>bones'. Some (Inr (bones'[nat b :=
                     (setPosition D_i (bones' ! nat b))\<lparr>rotation := rotation_i\<rparr>])))))"
| "updateMeshChildren n bones [] D_i rotation_i = Some (Inr bones)"
| "updateMeshChildren n bones (c # cs) D_i rotation_i =
     bindR (updateMesh n bones c (Some D_i) (Some rotation_i))
       (\<lambda>bones'. updateMeshChildren n bones' cs D_i rotation_i)"

fun rootDepth :: "nat \<Rightarrow> int list \<Rightarrow> int \<Rightarrow> nat option" where
  "rootDepth 0 ps b = None"
| "rootDepth (Suc n) ps b =
     (case arrayAt ps b of
        None \<Rightarrow> None
      | Some p \<Rightarrow> if p = -1 then Some 0 else map_option Suc (rootDepth n ps p))"

text \<open>
  A skeleton is a forest when the parent links of every bone lead to a root (parent \<open>-1\<close>)
  through indices of the array, which excludes cycles, and the children lists agree with the
  parent links: every child listed for bone \<open>i\<close> is a bone whose parent is \<open>i\<close>, and every
  bone whose parent is \<open>i\<close> is listed.
\<close>

definition forest :: "bone list \<Rightarrow> bool" where
  "forest bones \<longleftrightarrow>
     list_all
       (\<lambda>i. rootDepth (length bones) (map parent bones) (int i) \<noteq> None \<and>
            list_all (\<lambda>c. map_option parent (arrayAt bones c) = Some (int i))
              (children (bones ! i)) \<and>
            list_all (\<lambda>c. parent (bones ! c) = int i \<longrightarrow> int c \<in> set (children (bones ! i)))
              [0..<length bones])
       [0..<length bones]"

definition static :: "bone \<Rightarrow> bone" where
  "static b = b\<lparr>position := Vec3 0 0 0, endpoint := Vec3 0 0 0, rotation := setIdentityQ\<rparr>"

text \<open>
  The \<open>Bone\<close> constructor on a loader's bone, and the pass of the \<open>Mesh\<close> constructor that
  stores in \<open>T_ij\<close> the translation from the parent's bind position. \<open>foldE\<close> is
  \<open>forEach\<close> with a body that can raise.
\<close>

definition newBone :: "boneLoader \<Rightarrow> bone" where
  "newBone l =
     \<lparr>parent = l_parent l, children = l_children l, position = l_position l,
      endpoint = l_endpoint l, rotation = l_rotation l, isHighlight = False,
      T_ij = setIdentity, R_i = setIdentityQ,
      initPosition = l_position l, initEndpoint = l_endpoint l\<rparr>"

fun foldE :: "('s \<Rightarrow> 'a \<Rightarrow> error + 's) \<Rightarrow> 'a list \<Rightarrow> 's \<Rightarrow> error + 's" where
  "foldE f [] s = Inr s"
| "foldE f (x # xs) s = (case f s x of Inl e \<Rightarrow> Inl e | Inr s' \<Rightarrow> foldE f xs s')"

definition initT_ij :: "bone list \<Rightarrow> nat \<Rightarrow> error + bone list" where
  "initT_ij bones i =
     (let bone = bones ! i in
      if parent bone \<noteq> -1 then
        (case arrayAt bones (parent bone) of
           None \<Rightarrow> Inl TypeError
         | Some p \<Rightarrow>
             Inr (bones[i := bone\<lparr>T_ij := translate (T_ij bone)
                                      (difference (initPosition bone) (initPosition p))\<rparr>]))
      else Inr (bones[i := bone\<lparr>T_ij := translate (T_ij bone) (initPosition bone)\<rparr>]))"

definition newMesh :: "boneLoader list \<Rightarrow> error + bone list" where
  "newMesh loaders = foldE initT_ij [0..<length loaders] (map newBone loaders)"

definition loaders3 :: "boneLoader list" where
  "loaders3 =
     [\<lparr>l_parent = -1, l_children = [1], l_position = Vec3 1 0 0, l_endpoint = Vec3 1 1 0,
       l_rotation = setIdentityQ\<rparr>,
      \<lparr>l_parent = 0, l_children = [2], l_position = Vec3 1 1 0, l_endpoint = Vec3 1 2 0,
       l_rotation = setIdentityQ\<rparr>,
      \<lparr>l_parent = 1, l_children = [], l_position = Vec3 1 2 0, l_endpoint = Vec3 3 2 0,
       l_rotation = setIdentityQ\<rparr>]"

definition skeleton3 :: "bone list" where
  "skeleton3 =
     [\<lparr>parent = -1, children = [1], position = Vec3 1 0 0, endpoint = Vec3 1 1 0,
       rotation = setIdentityQ, isHighlight = False,
       T_ij = Mat4 (1, 0, 0, 0) (0, 1, 0, 0) (0, 0, 1, 0) (1, 0, 0, 1), R_i = setIdentityQ,
       initPosition = Vec3 1 0 0, initEndpoint = Vec3 1 1 0\<rparr>,
      \<lparr>parent = 0, children = [2], position = Vec3 1 1 0, endpoint = Vec3 1 2 0,
       rotation = setIdentityQ, isHighlight = False,
       T_ij = Mat4 (1, 0, 0, 0) (0, 1, 0, 0) (0, 0, 1, 0) (0, 1, 0, 1), R_i = setIdentityQ,
       initPosition = Vec3 1 1 0, initEndpoint = Vec3 1 2 0\<rparr>,
      \<lparr>parent = 1, children = [], position = Vec3 1 2 0, endpoint = Vec3 3 2 0,
       rotation = setIdentityQ, isHighlight = False,
       T_ij = Mat4 (1, 0, 0, 0) (0, 1, 0, 0) (0, 0, 1, 0) (0, 1, 0, 1), R_i = setIdentityQ,
       initPosition = Vec3 1 2 0, initEndpoint = Vec3 3 2 0\<rparr>]"


text \<open>Unit local rotation and translation-only \<open>T_ij\<close>; the bind-pose length of a bone.\<close>

definition pureTranslation :: "mat4 \<Rightarrow> bool" where
  "pureTranslation m \<longleftrightarrow>
     (case col3 m of (d0, d1, d2, d3) \<Rightarrow> m = translate setIdentity (Vec3 d0 d1 d2))"

definition posed :: "bone \<Rightarrow> bool" where
  "posed b \<longleftrightarrow> unitQ (R_i b) \<and> pureTranslation (T_ij b)"

definition lengthKept :: "bone \<Rightarrow> bool" where
  "lengthKept b \<longleftrightarrow> distance (position b) (endpoint b) = distance (initPosition b) (initEndpoint b)"

text \<open>The bind pose, as the constructor of \<open>Mesh\<close> leaves a bone.\<close>

definition bindPosed :: "bone \<Rightarrow> bool" where
  "bindPosed b \<longleftrightarrow> R_i b = setIdentityQ \<and> pureTranslation (T_ij b) \<and>
     position b = initPosition b \<and> endpoint b = initEndpoint b"


definition turned3 :: "bone list" where
  "turned3 = skeleton3[0 := rotateBone (Vec3 0 0 1) pi (skeleton3 ! 0)]"



section \<open>Picking (Gui.ts, the hover branch of drag)\<close>

text \<open>
  The branch of \<open>GUI.drag\<close> taken while not dragging. Its inputs here are the unprojected
  mouse direction \<open>mouse_dir\<close> and the camera position \<open>pos\<close>: the camera and its matrices
  are not among the sources. \<open>Mat3\<close> is three columns.

  \<open>inverse3\<close> is \<open>Mat3.inverse()\<close>. What the library returns for a singular matrix is not
  known from the sources, so it is the parameter \<open>singular\<close>: \<open>None\<close> stands for \<open>null\<close>,
  on which the \<open>Tmatrix.copy()\<close> that follows raises.

  In \<open>intersectCilinder\<close> the test \<open>a = 0\<close> writes out the division by zero: with \<open>a = 0\<close>
  both \<open>t1\<close> and \<open>t2\<close> are \<open>NaN\<close> or infinite, both range tests fail, \<open>ans\<close> stays
  \<open>MAX_VALUE\<close> and the result is \<open>NaN\<close>.
\<close>

type_synonym mat3 = "vec3 \<times> vec3 \<times> vec3"

definition dot :: "vec3 \<Rightarrow> vec3 \<Rightarrow> real" where
  "dot a b = vx a * vx b + vy a * vy b + vz a * vz b"

definition cross :: "vec3 \<Rightarrow> vec3 \<Rightarrow> vec3" where
  "cross a b =
     Vec3 (vy a * vz b - vz a * vy b) (vz a * vx b - vx a * vz b) (vx a * vy b - vy a * vx b)"

definition scale :: "real \<Rightarrow> vec3 \<Rightarrow> vec3" where
  "scale k v = Vec3 (k * vx v) (k * vy v) (k * vz v)"

definition normalize :: "vec3 \<Rightarrow> vec3" where
  "normalize v =
     (let l = sqrt (squaredLength v) in if l = 0 then Vec3 0 0 0 else scale (1 / l) v)"

definition multiplyVec3_3 :: "mat3 \<Rightarrow> vec3 \<Rightarrow> vec3" where
  "multiplyVec3_3 m v =
     (case m of (a, b, c) \<Rightarrow>
        Vec3 (vx a * vx v + vx b * vy v + vx c * vz v)
             (vy a * vx v + vy b * vy v + vy c * vz v)
             (vz a * vx v + vz b * vy v + vz c * vz v))"

definition inverse3 :: "mat3 option \<Rightarrow> mat3 \<Rightarrow> mat3 option" where
  "inverse3 singular m =
     (case m of (a, b, c) \<Rightarrow>
        let det = dot a (cross b c) in
        if det = 0 then singular
        else
          (let r0 = scale (1 / det) (cross b c);
               r1 = scale (1 / det) (cross c a);
               r2 = scale (1 / det) (cross a b)
           in Some (Vec3 (vx r0) (vx r1) (vx r2),
                    Vec3 (vy r0) (vy r1) (vy r2),
                    Vec3 (vz r0) (vz r1) (vz r2))))"

definition RADIUS_BONE :: real where
  "RADIUS_BONE = 0.1"

definition MAX_VALUE :: real where
  "MAX_VALUE = 2 ^ 1024 - 2 ^ 971"

definition MAX_SAFE_INTEGER :: real where
  "MAX_SAFE_INTEGER = 2 ^ 53 - 1"

definition intersectCilinder :: "vec3 \<Rightarrow> vec3 \<Rightarrow> real \<Rightarrow> real option" where
  "intersectCilinder pos dirNotN dist0 =
     (let dir = normalize dirNotN;
          a = vx dir * vx dir + vz dir * vz dir;
          b = 2 * (vx pos * vx dir + vz pos * vz dir);
          c = vx pos * vx pos + vz pos * vz pos - RADIUS_BONE * RADIUS_BONE;
          discriminant = b * b - 4 * a * c
      in if discriminant < 0 then None
         else if a = 0 then None
         else
           (let t1 = (- b - sqrt discriminant) / (2 * a);
                t2 = (- b + sqrt discriminant) / (2 * a);
                y1 = vy pos + t1 * vy dir;
                y2 = vy pos + t2 * vy dir;
                ans0 = MAX_VALUE;
                ans1 = (if y1 \<ge> 0 \<and> y1 \<le> dist0 then min ans0 t1 else ans0);
                ans2 = (if y2 \<ge> 0 \<and> y2 \<le> dist0 then min ans1 t2 else ans1)
            in if ans2 = MAX_VALUE then None else Some ans2))"

definition boneIntersection :: "mat3 option \<Rightarrow> vec3 \<Rightarrow> vec3 \<Rightarrow> bone \<Rightarrow> error + real option" where
  "boneIntersection singular mouse_dir pos cur_bone =
     (let dist0 = distance (endpoint cur_bone) (position cur_bone);
          axis = difference (endpoint cur_bone) (position cur_bone);
          tang = normalize axis;
          test_random = dot tang (Vec3 0 1 0);
          random = (if \<bar>test_random\<bar> < 0.999 then Vec3 0 1 0 else Vec3 1 0 0);
          y = normalize (cross tang random);
          x = normalize (cross tang y)
      in case inverse3 singular (y, tang, x) of
           None \<Rightarrow> Inl TypeError
         | Some Tmatrix \<Rightarrow>
             (let dir_transformed = multiplyVec3_3 Tmatrix mouse_dir;
                  pos_transformed = multiplyVec3_3 Tmatrix (difference pos (position cur_bone))
              in Inr (intersectCilinder pos_transformed dir_transformed dist0)))"

fun intersectAll :: "mat3 option \<Rightarrow> vec3 \<Rightarrow> vec3 \<Rightarrow> bone list \<Rightarrow> error + real option list" where
  "intersectAll singular mouse_dir pos [] = Inr []"
| "intersectAll singular mouse_dir pos (cur_bone # rest) =
     (case boneIntersection singular mouse_dir pos cur_bone of
        Inl e \<Rightarrow> Inl e
      | Inr t \<Rightarrow>
          (case intersectAll singular mouse_dir pos rest of
             Inl e \<Rightarrow> Inl e
           | Inr ts \<Rightarrow> Inr (t # ts)))"

fun highlightScan :: "real option list \<Rightarrow> nat \<Rightarrow> nat option \<Rightarrow> real \<Rightarrow> nat option" where
  "highlightScan [] i HighlightIndex minT = HighlightIndex"
| "highlightScan (t # ts) i HighlightIndex minT =
     (case t of
        None \<Rightarrow> highlightScan ts (Suc i) HighlightIndex minT
      | Some v \<Rightarrow>
          if v \<le> minT then highlightScan ts (Suc i) (Some i) v
          else highlightScan ts (Suc i) HighlightIndex minT)"

definition highlight :: "real option list \<Rightarrow> bone list \<Rightarrow> 'k gui \<Rightarrow> bone list \<times> 'k gui" where
  "highlight intersects bones g =
     (let HighlightIndex = highlightScan intersects 0 None MAX_SAFE_INTEGER;
          bones1 = map (\<lambda>b. b\<lparr>isHighlight := False\<rparr>) bones;
          g1 = (if intersects = [] then g else g\<lparr>selectedBone := None\<rparr>)
      in case HighlightIndex of
           None \<Rightarrow> (bones1, g1)
         | Some i \<Rightarrow> (bones1[i := (bones1 ! i)\<lparr>isHighlight := True\<rparr>], g1\<lparr>selectedBone := Some i\<rparr>))"

definition pick :: "mat3 option \<Rightarrow> vec3 \<Rightarrow> vec3 \<Rightarrow> bone list \<Rightarrow> 'k gui \<Rightarrow> error + (bone list \<times> 'k gui)" where
  "pick singular mouse_dir pos bones g =
     (if dragging g then Inr (bones, g)
      else case intersectAll singular mouse_dir pos bones of
             Inl e \<Rightarrow> Inl e
           | Inr intersects \<Rightarrow> Inr (highlight intersects bones g))"

definition boneY :: bone where
  "boneY = \<lparr>parent = -1, children = [], position = Vec3 0 0 0, endpoint = Vec3 0 1 0,
     rotation = setIdentityQ, isHighlight = False,
     T_ij = setIdentity, R_i = setIdentityQ,
     initPosition = Vec3 0 0 0, initEndpoint = Vec3 0 1 0\<rparr>"


definition rayPoint :: "vec3 \<Rightarrow> vec3 \<Rightarrow> real \<Rightarrow> vec3" where
  "rayPoint pos dir t = Vec3 (vx pos + t * vx dir) (vy pos + t * vy dir) (vz pos + t * vz dir)"

definition onBoneCylinder :: "bone \<Rightarrow> vec3 \<Rightarrow> bool" where
  "onBoneCylinder b p \<longleftrightarrow>
     (let u = normalize (difference (endpoint b) (position b));
          w = difference p (position b);
          h = dot w u
      in squaredLength (cross w u) = RADIUS_BONE * RADIUS_BONE \<and>
         0 \<le> h \<and> h \<le> distance (endpoint b) (position b))"


definition hover0 :: "bone list gui" where
  "hover0 = \<lparr>keyFrames = [], selectedBone = None, dragging = False, boneDragging = False,
             time = 0, mode = edit, cameraMoves = 0\<rparr>"


section \<open>Key handlers and bone dragging (Gui.ts)\<close>

definition rotationSpeed :: real where
  "rotationSpeed = 0.05"

text \<open>\<open>mesh.bones[this.selectedBone]\<close>: \<open>undefined\<close> when \<open>selectedBone\<close> is \<open>NaN\<close>.\<close>

definition boneAtSelection :: "'k gui \<Rightarrow> bone list \<Rightarrow> bone option" where
  "boneAtSelection g bones =
     (case selectedBone g of None \<Rightarrow> None | Some i \<Rightarrow> arrayAt bones (int i))"

definition rotateSelected ::
  "nat \<Rightarrow> vec3 \<Rightarrow> real \<Rightarrow> nat \<Rightarrow> bone list \<Rightarrow> (error + bone list) option" where
  "rotateSelected fuel axis angle i bones =
     (case arrayAt bones (int i) of
        None \<Rightarrow> Some (Inl TypeError)
      | Some b \<Rightarrow> updateMesh fuel (bones[i := rotateBone axis angle b]) (int i) None None)"

definition onArrow ::
  "real \<Rightarrow> nat \<Rightarrow> 'k gui \<Rightarrow> bone list \<Rightarrow> (error + 'k gui \<times> bone list) option" where
  "onArrow angle fuel g bones =
     (case boneAtSelection g bones of
        None \<Rightarrow> Some (Inl TypeError)
      | Some sel \<Rightarrow>
          (let rotationAxis = difference (initEndpoint sel) (initPosition sel)
           in case selectedBone g of
                Some i \<Rightarrow>
                  bindR (rotateSelected fuel rotationAxis angle i bones) (\<lambda>bs. Some (Inr (g, bs)))
              | None \<Rightarrow> Some (Inr (g\<lparr>cameraMoves := Suc (cameraMoves g)\<rparr>, bones))))"

datatype key = ArrowLeft | ArrowRight | KeyP

definition onKeydown ::
  "nat \<Rightarrow> key \<Rightarrow> 'k gui \<Rightarrow> bone list \<Rightarrow> (error + 'k gui \<times> bone list) option" where
  "onKeydown fuel k g bones =
     (case k of
        ArrowLeft \<Rightarrow> onArrow rotationSpeed fuel g bones
      | ArrowRight \<Rightarrow> onArrow (- rotationSpeed) fuel g bones
      | KeyP \<Rightarrow> Some (Inr (onKeyP g, bones)))"

text \<open>
  The bone-dragging branch of \<open>GUI.drag\<close>, entered when \<open>dragging\<close>, \<open>boneDragging\<close> and the
  primary button hold and the mouse has moved. The projections of the bone to the screen use
  the camera's matrices, which are not modelled: \<open>angle\<close> and \<open>forward\<close> stand for the angle
  computed from them and for \<open>camera.forward()\<close>.
\<close>

definition dragBone ::
  "nat \<Rightarrow> vec3 \<Rightarrow> real \<Rightarrow> 'k gui \<Rightarrow> bone list \<Rightarrow> (error + 'k gui \<times> bone list) option" where
  "dragBone fuel forward angle g bones =
     (case boneAtSelection g bones of
        None \<Rightarrow> Some (Inl TypeError)
      | Some sel \<Rightarrow>
          (case selectedBone g of
             Some i \<Rightarrow> bindR (rotateSelected fuel forward angle i bones) (\<lambda>bs. Some (Inr (g, bs)))
           | None \<Rightarrow> Some (Inr (g, bones))))"


section \<open>Bones as objects: a store of vectors, quaternions and matrices\<close>

text \<open>
  Where a claim depends on which fields hold the same object, a bone's fields are references
  into a store of \<open>Vec3\<close>, \<open>Quat\<close> and \<open>Mat4\<close> objects. \<open>new\<close>, \<open>copy()\<close> and the static
  \<open>product\<close>, \<open>difference\<close>, \<open>slerpShort\<close> allocate (the store grows at its end); a method
  called without a destination on an object writes into that object. Temporaries that no
  field ever holds are not allocated. \<open>view\<close> reads a bone's fields through the store and
  gives the record of values of the sections above; the read-only recursions \<open>getD_i\<close> and
  \<open>getR_i\<close> run on that view.

  \<open>copyBone\<close> is the \<open>Bone\<close> constructor of the later revision on a \<open>Bone\<close>: five fields
  are copied, \<open>T_ij\<close> and \<open>R_i\<close> are taken as they are. \<open>slerpShort\<close> is a parameter.
\<close>

datatype obj = VecObj vec3 | QuatObj quat | MatObj mat4

type_synonym store = "obj list"

definition alloc :: "obj \<Rightarrow> store \<Rightarrow> nat \<times> store" where
  "alloc x st = (length st, st @ [x])"

definition vecAt :: "store \<Rightarrow> nat \<Rightarrow> vec3" where
  "vecAt st a = (if a < length st then (case st ! a of VecObj v \<Rightarrow> v | _ \<Rightarrow> Vec3 0 0 0) else Vec3 0 0 0)"

definition quatAt :: "store \<Rightarrow> nat \<Rightarrow> quat" where
  "quatAt st a = (if a < length st then (case st ! a of QuatObj q \<Rightarrow> q | _ \<Rightarrow> setIdentityQ) else setIdentityQ)"

definition matAt :: "store \<Rightarrow> nat \<Rightarrow> mat4" where
  "matAt st a = (if a < length st then (case st ! a of MatObj m \<Rightarrow> m | _ \<Rightarrow> setIdentity) else setIdentity)"

record boneObj =
  o_parent :: int
  o_children :: "int list"
  o_position :: nat
  o_endpoint :: nat
  o_rotation :: nat
  o_isHighlight :: bool
  o_T_ij :: nat
  o_R_i :: nat
  o_initPosition :: nat
  o_initEndpoint :: nat

definition view :: "store \<Rightarrow> boneObj \<Rightarrow> bone" where
  "view st x =
     \<lparr>parent = o_parent x, children = o_children x,
      position = vecAt st (o_position x), endpoint = vecAt st (o_endpoint x),
      rotation = quatAt st (o_rotation x), isHighlight = o_isHighlight x,
      T_ij = matAt st (o_T_ij x), R_i = quatAt st (o_R_i x),
      initPosition = vecAt st (o_initPosition x), initEndpoint = vecAt st (o_initEndpoint x)\<rparr>"

definition refs :: "boneObj \<Rightarrow> nat list" where
  "refs x = [o_position x, o_endpoint x, o_rotation x, o_T_ij x, o_R_i x,
             o_initPosition x, o_initEndpoint x]"

definition validRefs :: "store \<Rightarrow> boneObj \<Rightarrow> bool" where
  "validRefs st x \<longleftrightarrow> list_all (\<lambda>a. a < length st) (refs x)"

text \<open>
  The fields that the \<open>Bone\<close> constructor fills with \<open>copy()\<close> when given a \<open>Bone\<close>, and a
  property of every reference held by the bones of a skeleton.
\<close>

definition copied :: "boneObj \<Rightarrow> nat list" where
  "copied x = [o_position x, o_endpoint x, o_rotation x, o_initPosition x, o_initEndpoint x]"

definition allRefs :: "(nat \<Rightarrow> bool) \<Rightarrow> boneObj list \<Rightarrow> bool" where
  "allRefs P bones \<longleftrightarrow> list_all (\<lambda>x. list_all P (refs x)) bones"

definition copyBone :: "boneObj \<Rightarrow> store \<Rightarrow> boneObj \<times> store" where
  "copyBone bone st =
     (let (p, st1) = alloc (VecObj (vecAt st (o_position bone))) st;
          (e, st2) = alloc (VecObj (vecAt st1 (o_endpoint bone))) st1;
          (r, st3) = alloc (QuatObj (quatAt st2 (o_rotation bone))) st2;
          (ip, st4) = alloc (VecObj (vecAt st3 (o_initPosition bone))) st3;
          (ie, st5) = alloc (VecObj (vecAt st4 (o_initEndpoint bone))) st4
      in (\<lparr>o_parent = o_parent bone, o_children = o_children bone,
           o_position = p, o_endpoint = e, o_rotation = r, o_isHighlight = False,
           o_T_ij = o_T_ij bone, o_R_i = o_R_i bone,
           o_initPosition = ip, o_initEndpoint = ie\<rparr>, st5))"

fun KeyFrame :: "boneObj list \<Rightarrow> store \<Rightarrow> boneObj list \<times> store" where
  "KeyFrame [] st = ([], st)"
| "KeyFrame (bone # bones) st =
     (let (k, st1) = copyBone bone st; (ks, st2) = KeyFrame bones st1 in (k # ks, st2))"

definition rotateBone_o :: "vec3 \<Rightarrow> real \<Rightarrow> boneObj \<Rightarrow> store \<Rightarrow> boneObj \<times> store" where
  "rotateBone_o axis angle b st =
     (let (q, st1) = alloc (QuatObj (productQ (quatAt st (o_R_i b)) (fromAxisAngle axis angle))) st
      in (b\<lparr>o_R_i := q\<rparr>, st1))"

definition setPosition_o :: "mat4 \<Rightarrow> nat \<Rightarrow> boneObj list \<Rightarrow> store \<Rightarrow> boneObj list \<times> store" where
  "setPosition_o D_i k bones st =
     (let x = bones ! k;
          (p, st1) = alloc (VecObj (multiplyPt3 D_i (Vec3 0 0 0))) st;
          (e, st2) = alloc (VecObj (multiplyPt3 D_i
                       (difference (vecAt st1 (o_initEndpoint x)) (vecAt st1 (o_initPosition x))))) st1
      in (bones[k := x\<lparr>o_position := p, o_endpoint := e\<rparr>], st2))"

definition setRotation_o :: "quat \<Rightarrow> nat \<Rightarrow> boneObj list \<Rightarrow> store \<Rightarrow> boneObj list \<times> store" where
  "setRotation_o rotation_i k bones st =
     (let (r, st1) = alloc (QuatObj rotation_i) st in (bones[k := (bones ! k)\<lparr>o_rotation := r\<rparr>], st1))"

definition setPose_o ::
  "mat4 \<Rightarrow> quat \<Rightarrow> nat \<Rightarrow> boneObj list \<Rightarrow> store \<Rightarrow> boneObj list \<times> store" where
  "setPose_o D_i rotation_i k bones st =
     (case setPosition_o D_i k bones st of
        (bones1, st1) \<Rightarrow> setRotation_o rotation_i k bones1 st1)"

fun calculateD_iAndTranslate_o ::
    "nat \<Rightarrow> boneObj list \<Rightarrow> store \<Rightarrow> int \<Rightarrow> mat4 option \<Rightarrow> (error + boneObj list \<times> store) option"
  and calculateChildren_o ::
    "nat \<Rightarrow> boneObj list \<Rightarrow> store \<Rightarrow> int list \<Rightarrow> mat4 \<Rightarrow> (error + boneObj list \<times> store) option"
where
  "calculateD_iAndTranslate_o 0 bones st b D_parent = None"
| "calculateD_iAndTranslate_o (Suc n) bones st b D_parent =
     (case arrayAt bones b of
        None \<Rightarrow> Some (Inl TypeError)
      | Some boneInstance \<Rightarrow>
          bindR (calculateBranch (Suc n) (map (view st) bones) b (view st boneInstance) D_parent)
            (\<lambda>D_i. bindR (calculateChildren_o n bones st (o_children boneInstance) D_i)
               (\<lambda>(bones', st'). Some (Inr (setPosition_o D_i (nat b) bones' st')))))"
| "calculateChildren_o n bones st [] D_i = Some (Inr (bones, st))"
| "calculateChildren_o n bones st (c # cs) D_i =
     bindR (calculateD_iAndTranslate_o n bones st c (Some D_i))
       (\<lambda>(bones', st'). calculateChildren_o n bones' st' cs D_i)"

fun updateMesh_o ::
    "nat \<Rightarrow> boneObj list \<Rightarrow> store \<Rightarrow> int \<Rightarrow> mat4 option \<Rightarrow> quat option
       \<Rightarrow> (error + boneObj list \<times> store) option"
  and updateMeshChildren_o ::
    "nat \<Rightarrow> boneObj list \<Rightarrow> store \<Rightarrow> int list \<Rightarrow> mat4 \<Rightarrow> quat
       \<Rightarrow> (error + boneObj list \<times> store) option"
where
  "updateMesh_o 0 bones st b D_parent rot_parent = None"
| "updateMesh_o (Suc n) bones st b D_parent rot_parent =
     (case arrayAt bones b of
        None \<Rightarrow> Some (Inl TypeError)
      | Some boneInstance \<Rightarrow>
          bindR (updateBranch (Suc n) (map (view st) bones) b (view st boneInstance)
                   D_parent rot_parent)
            (\<lambda>(D_i, rotation_i).
               bindR (updateMeshChildren_o n bones st (o_children boneInstance) D_i rotation_i)
                 (\<lambda>(bones', st'). Some (Inr (setPose_o D_i rotation_i (nat b) bones' st')))))"
| "updateMeshChildren_o n bones st [] D_i rotation_i = Some (Inr (bones, st))"
| "updateMeshChildren_o n bones st (c # cs) D_i rotation_i =
     bindR (updateMesh_o n bones st c (Some D_i) (Some rotation_i))
       (\<lambda>(bones', st'). updateMeshChildren_o n bones' st' cs D_i rotation_i)"

text \<open>The two loops of the playback branch of \<open>draw\<close>, and a run of operations on the live skeleton.\<close>

fun interpolate ::
  "(quat \<Rightarrow> quat \<Rightarrow> real \<Rightarrow> quat) \<Rightarrow> boneObj list \<Rightarrow> boneObj list \<Rightarrow> real \<Rightarrow> nat list
     \<Rightarrow> boneObj list \<Rightarrow> store \<Rightarrow> error + boneObj list \<times> store" where
  "interpolate slerpShort keyframe1 keyframe2 t [] bones st = Inr (bones, st)"
| "interpolate slerpShort keyframe1 keyframe2 t (i # is) bones st =
     (case (arrayAt keyframe1 (int i), arrayAt keyframe2 (int i)) of
        (Some k1, Some k2) \<Rightarrow>
          (let (r, st1) = alloc (QuatObj (slerpShort (quatAt st (o_rotation k1))
                                      (quatAt st (o_rotation k2)) t)) st;
               (q, st2) = alloc (QuatObj (slerpShort (quatAt st1 (o_R_i k1)) (quatAt st1 (o_R_i k2)) t)) st1
           in interpolate slerpShort keyframe1 keyframe2 t is
                (bones[i := (bones ! i)\<lparr>o_rotation := r, o_R_i := q\<rparr>]) st2)
      | _ \<Rightarrow> Inl TypeError)"

fun recomputeRoots ::
  "nat \<Rightarrow> nat list \<Rightarrow> boneObj list \<Rightarrow> store \<Rightarrow> (error + boneObj list \<times> store) option" where
  "recomputeRoots fuel [] bones st = Some (Inr (bones, st))"
| "recomputeRoots fuel (i # is) bones st =
     (if o_parent (bones ! i) = -1 then
        bindR (calculateD_iAndTranslate_o fuel bones st (int i) None)
          (\<lambda>(bones', st'). recomputeRoots fuel is bones' st')
      else recomputeRoots fuel is bones st)"

definition playbackTick ::
  "nat \<Rightarrow> (quat \<Rightarrow> quat \<Rightarrow> real \<Rightarrow> quat) \<Rightarrow> boneObj list \<Rightarrow> boneObj list \<Rightarrow> real
     \<Rightarrow> boneObj list \<Rightarrow> store \<Rightarrow> (error + boneObj list \<times> store) option" where
  "playbackTick fuel slerpShort keyframe1 keyframe2 t bones st =
     (case interpolate slerpShort keyframe1 keyframe2 t [0..<length bones] bones st of
        Inl e \<Rightarrow> Some (Inl e)
      | Inr (bones1, st1) \<Rightarrow> recomputeRoots fuel [0..<length bones1] bones1 st1)"

datatype action =
    Rotate nat vec3 real
  | Update int
  | Playback "boneObj list" "boneObj list" real
  | Capture

definition act ::
  "nat \<Rightarrow> (quat \<Rightarrow> quat \<Rightarrow> real \<Rightarrow> quat) \<Rightarrow> action \<Rightarrow> boneObj list \<Rightarrow> store
     \<Rightarrow> (error + boneObj list \<times> store) option" where
  "act fuel slerpShort a bones st =
     (case a of
        Rotate i axis angle \<Rightarrow>
          (case arrayAt bones (int i) of
             None \<Rightarrow> Some (Inl TypeError)
           | Some b \<Rightarrow>
               (case rotateBone_o axis angle b st of (b', st') \<Rightarrow> Some (Inr (bones[i := b'], st'))))
      | Update b \<Rightarrow> updateMesh_o fuel bones st b None None
      | Playback keyframe1 keyframe2 t \<Rightarrow> playbackTick fuel slerpShort keyframe1 keyframe2 t bones st
      | Capture \<Rightarrow> Some (Inr (bones, snd (KeyFrame bones st))))"

fun acts ::
  "nat \<Rightarrow> (quat \<Rightarrow> quat \<Rightarrow> real \<Rightarrow> quat) \<Rightarrow> action list \<Rightarrow> boneObj list \<Rightarrow> store
     \<Rightarrow> (error + boneObj list \<times> store) option" where
  "acts fuel slerpShort [] bones st = Some (Inr (bones, st))"
| "acts fuel slerpShort (a # as) bones st =
     bindR (act fuel slerpShort a bones st) (\<lambda>(bones', st'). acts fuel slerpShort as bones' st')"

text \<open>
  The result of a recursion on the store, read through the store, and what it is for such a
  result to be that of the recursion on values: the views agree, the skeleton keeps its
  number of bones and every reference of a bone is an address of the store.
\<close>

definition viewResult :: "(error + boneObj list \<times> store) option \<Rightarrow> (error + bone list) option" where
  "viewResult r =
     (case r of
        None \<Rightarrow> None
      | Some (Inl e) \<Rightarrow> Some (Inl e)
      | Some (Inr (bones, st)) \<Rightarrow> Some (Inr (map (view st) bones)))"

definition refines ::
  "boneObj list \<Rightarrow> (error + boneObj list \<times> store) option \<Rightarrow> (error + bone list) option \<Rightarrow> bool" where
  "refines bones r v \<longleftrightarrow>
     viewResult r = v \<and>
     (case r of
        Some (Inr (bones', st')) \<Rightarrow> length bones' = length bones \<and> list_all (validRefs st') bones'
      | _ \<Rightarrow> True)"

subsection \<open>Earlier revision (Scene.ts)\<close>

text \<open>
  The \<open>Bone\<close> constructor on a loader's bone (seven new objects, in the constructor's
  order), the pass of the \<open>Mesh\<close> constructor, and \<open>rotateBone\<close>, as the earlier revision
  has them. In the pass, \<open>translation\<close> is the object \<open>bone.initPosition\<close> itself, and
  \<open>translation.subtract(...)\<close>, whose result the source discards, writes into it; in
  \<open>rotateBone\<close>, \<open>this.R_i.multiply(...)\<close> writes into the object \<open>R_i\<close> holds.
\<close>

definition newBone_o :: "boneLoader \<Rightarrow> store \<Rightarrow> boneObj \<times> store" where
  "newBone_o bone st =
     (let n = length st
      in (\<lparr>o_parent = l_parent bone, o_children = l_children bone,
           o_position = n, o_endpoint = n + 1, o_rotation = n + 2, o_isHighlight = False,
           o_T_ij = n + 5, o_R_i = n + 6, o_initPosition = n + 3, o_initEndpoint = n + 4\<rparr>,
          st @ [VecObj (l_position bone), VecObj (l_endpoint bone), QuatObj (l_rotation bone),
                VecObj (l_position bone), VecObj (l_endpoint bone), MatObj setIdentity, QuatObj setIdentityQ]))"

fun newBones_o :: "boneLoader list \<Rightarrow> store \<Rightarrow> boneObj list \<times> store" where
  "newBones_o [] st = ([], st)"
| "newBones_o (bone # rest) st =
     (let (b, st1) = newBone_o bone st; (bs, st2) = newBones_o rest st1 in (b # bs, st2))"

definition initT_ij_old :: "boneObj list \<Rightarrow> store \<Rightarrow> nat \<Rightarrow> error + store" where
  "initT_ij_old bones st i =
     (let bone = bones ! i;
          translation = o_initPosition bone
      in if o_parent bone \<noteq> -1 then
           (case arrayAt bones (o_parent bone) of
              None \<Rightarrow> Inl TypeError
            | Some p \<Rightarrow>
                (let st1 = st[translation :=
                             VecObj (difference (vecAt st translation) (vecAt st (o_initPosition p)))]
                 in Inr (st1[o_T_ij bone :=
                            MatObj (translate (matAt st1 (o_T_ij bone)) (vecAt st1 translation))])))
         else Inr (st[o_T_ij bone := MatObj (translate (matAt st (o_T_ij bone)) (vecAt st translation))]))"

definition newMesh_old :: "boneLoader list \<Rightarrow> error + boneObj list \<times> store" where
  "newMesh_old loaders =
     (case newBones_o loaders [] of
        (bones, st) \<Rightarrow>
          (case foldE (initT_ij_old bones) [0..<length bones] st of
             Inl e \<Rightarrow> Inl e
           | Inr st' \<Rightarrow> Inr (bones, st')))"

definition rotateBone_old :: "vec3 \<Rightarrow> real \<Rightarrow> boneObj \<Rightarrow> store \<Rightarrow> store" where
  "rotateBone_old axis angle b st =
     st[o_R_i b := QuatObj (productQ (quatAt st (o_R_i b)) (fromAxisAngle axis angle))]"

text \<open>
  \<open>getD_i\<close> and \<open>updateMesh\<close> of the earlier revision. A root's transform is the translation
  to \<open>initPosition\<close> times the rotation. \<open>rot_parent\<close> and \<open>rotation_i\<close> are references: called
  without a parent transform, \<open>rotation_i = boneInstance.R_i\<close> is the object that \<open>R_i\<close> holds
  and \<open>boneInstance.rotation = rotation_i\<close> stores that object; with a parent transform,
  \<open>Quat.product\<close> allocates. The fields are set before the children are visited.
\<close>

fun getD_i_old :: "nat \<Rightarrow> bone list \<Rightarrow> int \<Rightarrow> (error + mat4) option" where
  "getD_i_old 0 bones b = None"
| "getD_i_old (Suc n) bones b =
     (case arrayAt bones b of
        None \<Rightarrow> Some (Inl TypeError)
      | Some curBone \<Rightarrow>
          if parent curBone = -1 then
            Some (Inr (product (translate setIdentity (initPosition curBone)) (toMat4 (R_i curBone))))
          else bindR (getD_i_old n bones (parent curBone))
                 (\<lambda>D_parent. Some (Inr (product D_parent
                                        (product (T_ij curBone) (toMat4 (R_i curBone)))))))"

definition updateBranch_old ::
  "nat \<Rightarrow> boneObj list \<Rightarrow> store \<Rightarrow> int \<Rightarrow> boneObj \<Rightarrow> mat4 option \<Rightarrow> nat option
     \<Rightarrow> (error + mat4 \<times> nat \<times> store) option" where
  "updateBranch_old fuel bones st b boneInstance D_parent rot_parent =
     (case (D_parent, rot_parent) of
        (Some D, Some r) \<Rightarrow>
          (let (q, st1) = alloc (QuatObj (productQ (quatAt st r) (quatAt st (o_R_i boneInstance)))) st
           in Some (Inr (product D (product (matAt st (o_T_ij boneInstance))
                                            (toMat4 (quatAt st (o_R_i boneInstance)))),
                         q, st1)))
      | _ \<Rightarrow>
          bindR (getD_i_old fuel (map (view st) bones) b)
            (\<lambda>D. Some (Inr (D, o_R_i boneInstance, st))))"

fun updateMesh_old ::
    "nat \<Rightarrow> boneObj list \<Rightarrow> store \<Rightarrow> int \<Rightarrow> mat4 option \<Rightarrow> nat option
       \<Rightarrow> (error + boneObj list \<times> store) option"
  and updateMeshChildren_old ::
    "nat \<Rightarrow> boneObj list \<Rightarrow> store \<Rightarrow> int list \<Rightarrow> mat4 \<Rightarrow> nat
       \<Rightarrow> (error + boneObj list \<times> store) option"
where
  "updateMesh_old 0 bones st b D_parent rot_parent = None"
| "updateMesh_old (Suc n) bones st b D_parent rot_parent =
     (case arrayAt bones b of
        None \<Rightarrow> Some (Inl TypeError)
      | Some boneInstance \<Rightarrow>
          bindR (updateBranch_old (Suc n) bones st b boneInstance D_parent rot_parent)
            (\<lambda>(D_i, rotation_i, st1).
               (case setPosition_o D_i (nat b) bones st1 of
                  (bones1, st2) \<Rightarrow>
                    updateMeshChildren_old n
                      (bones1[nat b := (bones1 ! nat b)\<lparr>o_rotation := rotation_i\<rparr>]) st2
                      (o_children boneInstance) D_i rotation_i)))"
| "updateMeshChildren_old n bones st [] D_i rotation_i = Some (Inr (bones, st))"
| "updateMeshChildren_old n bones st (c # cs) D_i rotation_i =
     bindR (updateMesh_old n bones st c (Some D_i) (Some rotation_i))
       (\<lambda>(bones', st'). updateMeshChildren_old n bones' st' cs D_i rotation_i)"

definition loaders1 :: "boneLoader list" where
  "loaders1 =
     [\<lparr>l_parent = -1, l_children = [], l_position = Vec3 1 0 0, l_endpoint = Vec3 1 1 0,
       l_rotation = setIdentityQ\<rparr>]"

definition loaders2 :: "boneLoader list" where
  "loaders2 =
     [\<lparr>l_parent = -1, l_children = [1], l_position = Vec3 1 0 0, l_endpoint = Vec3 1 1 0,
       l_rotation = setIdentityQ\<rparr>,
      \<lparr>l_parent = 0, l_children = [], l_position = Vec3 1 1 0, l_endpoint = Vec3 1 2 0,
       l_rotation = setIdentityQ\<rparr>]"


definition mesh2_old :: "boneObj list \<times> store" where
  "mesh2_old =
     ([\<lparr>o_parent = -1, o_children = [1], o_position = 0, o_endpoint = 1, o_rotation = 2,
        o_isHighlight = False, o_T_ij = 5, o_R_i = 6, o_initPosition = 3, o_initEndpoint = 4\<rparr>,
       \<lparr>o_parent = 0, o_children = [], o_position = 7, o_endpoint = 8, o_rotation = 9,
        o_isHighlight = False, o_T_ij = 12, o_R_i = 13, o_initPosition = 10, o_initEndpoint = 11\<rparr>],
      [VecObj (Vec3 1 0 0), VecObj (Vec3 1 1 0), QuatObj setIdentityQ, VecObj (Vec3 1 0 0), VecObj (Vec3 1 1 0),
       MatObj (Mat4 (1, 0, 0, 0) (0, 1, 0, 0) (0, 0, 1, 0) (1, 0, 0, 1)), QuatObj setIdentityQ,
       VecObj (Vec3 1 1 0), VecObj (Vec3 1 2 0), QuatObj setIdentityQ, VecObj (Vec3 0 1 0), VecObj (Vec3 1 2 0),
       MatObj (Mat4 (1, 0, 0, 0) (0, 1, 0, 0) (0, 0, 1, 0) (0, 1, 0, 1)), QuatObj setIdentityQ])"


text \<open>A one-bone skeleton, its keyframe, and the stores after a rotation and a recompute.\<close>

definition bone1 :: boneObj where
  "bone1 = \<lparr>o_parent = -1, o_children = [], o_position = 0, o_endpoint = 1, o_rotation = 2,
     o_isHighlight = False, o_T_ij = 5, o_R_i = 6, o_initPosition = 3, o_initEndpoint = 4\<rparr>"

definition store1 :: store where
  "store1 = [VecObj (Vec3 1 0 0), VecObj (Vec3 1 1 0), QuatObj setIdentityQ, VecObj (Vec3 1 0 0), VecObj (Vec3 1 1 0),
             MatObj (Mat4 (1, 0, 0, 0) (0, 1, 0, 0) (0, 0, 1, 0) (1, 0, 0, 1)), QuatObj setIdentityQ]"

definition key1 :: boneObj where
  "key1 = \<lparr>o_parent = -1, o_children = [], o_position = 7, o_endpoint = 8, o_rotation = 9,
     o_isHighlight = False, o_T_ij = 5, o_R_i = 6, o_initPosition = 10, o_initEndpoint = 11\<rparr>"

definition store2 :: store where
  "store2 = store1 @ [VecObj (Vec3 1 0 0), VecObj (Vec3 1 1 0), QuatObj setIdentityQ, VecObj (Vec3 1 0 0), VecObj (Vec3 1 1 0)]"

definition turned1 :: boneObj where
  "turned1 = bone1\<lparr>o_R_i := 12\<rparr>"

definition store3 :: store where
  "store3 = store2 @ [QuatObj (Quat 0 0 1 0)]"

definition posed1 :: boneObj where
  "posed1 = bone1\<lparr>o_R_i := 12, o_position := 13, o_endpoint := 14, o_rotation := 15\<rparr>"

definition store4 :: store where
  "store4 = store3 @ [VecObj (Vec3 1 0 0), VecObj (Vec3 1 (-1) 0), QuatObj (Quat 0 0 1 0)]"

text \<open>The one-bone skeleton after the earlier revision's \<open>updateMesh(0, null, null)\<close>.\<close>

definition aliased1 :: boneObj where
  "aliased1 = bone1\<lparr>o_position := 7, o_endpoint := 8, o_rotation := 6\<rparr>"

definition store1u :: store where
  "store1u = store1 @ [VecObj (Vec3 1 0 0), VecObj (Vec3 1 1 0)]"


section \<open>Library facts\<close>

lemma mat4_exhaust:
  obtains a0 a1 a2 a3 b0 b1 b2 b3 c0 c1 c2 c3 d0 d1 d2 d3
  where "m = Mat4 (a0, a1, a2, a3) (b0, b1, b2, b3) (c0, c1, c2, c3) (d0, d1, d2, d3)"
  by (cases m) auto

lemma multiplyPt3_product:
  "affine b \<Longrightarrow> multiplyPt3 (product a b) p = multiplyPt3 a (multiplyPt3 b p)"
  by (cases a rule: mat4_exhaust; cases b rule: mat4_exhaust; cases p)
     (simp add: affine_def product_def multiplyPt3_def multiplyVec4_def algebra_simps)

lemma affine_product: "affine a \<Longrightarrow> affine b \<Longrightarrow> affine (product a b)"
  by (cases a rule: mat4_exhaust; cases b rule: mat4_exhaust)
     (simp add: affine_def product_def multiplyVec4_def)

lemma rigid_product: "rigid a \<Longrightarrow> rigid b \<Longrightarrow> rigid (product a b)"
  by (simp add: rigid_def affine_product multiplyPt3_product)

lemma affine_toMat4: "affine (toMat4 q)"
  by (cases q) (simp add: toMat4_def affine_def Let_def)

lemma difference_multiplyPt3:
  "difference (multiplyPt3 m p) (multiplyPt3 m q) = multiplyVec3 m (difference p q)"
  by (cases m rule: mat4_exhaust; cases p; cases q)
     (simp add: multiplyPt3_def multiplyVec3_def difference_def algebra_simps)

lemma quat_poly:
  fixes x y z w u v t :: real
  shows "((x*x + w*w - y*y - z*z) * u + (x*(2 * y) - w*(2 * z)) * v + (x*(2 * z) + w*(2 * y)) * t)^2
      + ((x*(2 * y) + w*(2 * z)) * u + (y*y + w*w - x*x - z*z) * v + (y*(2 * z) - w*(2 * x)) * t)^2
      + ((x*(2 * z) - w*(2 * y)) * u + (y*(2 * z) + w*(2 * x)) * v + (z*z + w*w - x*x - y*y) * t)^2
     = (x * x + y * y + z * z + w * w)^2 * (u * u + v * v + t * t)"
  by algebra

lemma sqlen_toMat4:
  assumes 1: "x * x + y * y + z * z + w * w = 1"
  shows "squaredLength (multiplyVec3 (toMat4 (Quat x y z w)) (Vec3 u v t)) = squaredLength (Vec3 u v t)"
proof -
  have e1: "1 - (y * (2 * y) + z * (2 * z)) = x*x + w*w - y*y - z*z"
    and e2: "1 - (x * (2 * x) + z * (2 * z)) = y*y + w*w - x*x - z*z"
    and e3: "1 - (x * (2 * x) + y * (2 * y)) = z*z + w*w - x*x - y*y"
    using 1 by (simp_all add: algebra_simps)
  have "squaredLength (multiplyVec3 (toMat4 (Quat x y z w)) (Vec3 u v t))
      = ((x*x + w*w - y*y - z*z) * u + (x*(2 * y) - w*(2 * z)) * v + (x*(2 * z) + w*(2 * y)) * t)^2
      + ((x*(2 * y) + w*(2 * z)) * u + (y*y + w*w - x*x - z*z) * v + (y*(2 * z) - w*(2 * x)) * t)^2
      + ((x*(2 * z) - w*(2 * y)) * u + (y*(2 * z) + w*(2 * x)) * v + (z*z + w*w - x*x - y*y) * t)^2"
    by (simp add: toMat4_def Let_def multiplyVec3_def squaredLength_def e1 e2 e3 power2_eq_square)
  also have "\<dots> = (x * x + y * y + z * z + w * w)^2 * (u * u + v * v + t * t)"
    by (rule quat_poly)
  finally show ?thesis by (simp add: 1 squaredLength_def)
qed

lemma rigid_toMat4: "unitQ q \<Longrightarrow> rigid (toMat4 q)"
  unfolding rigid_def
proof (intro conjI allI)
  show "affine (toMat4 q)" by (rule affine_toMat4)
next
  fix p r assume u: "unitQ q"
  obtain x y z w where q: "q = Quat x y z w" by (cases q)
  obtain a b c where d: "difference p r = Vec3 a b c" by (cases "difference p r")
  from u have 1: "x * x + y * y + z * z + w * w = 1" by (simp add: q unitQ_def)
  show "distance (multiplyPt3 (toMat4 q) p) (multiplyPt3 (toMat4 q) r) = distance p r"
    unfolding distance_def difference_multiplyPt3 d q
    by (simp only: sqlen_toMat4 [OF 1])
qed

lemma unitQ_poly:
  fixes x1 y1 z1 w1 x2 y2 z2 w2 :: real
  shows "(x1 * w2 + w1 * x2 + y1 * z2 - z1 * y2)^2 + (y1 * w2 + w1 * y2 + z1 * x2 - x1 * z2)^2
       + (z1 * w2 + w1 * z2 + x1 * y2 - y1 * x2)^2 + (w1 * w2 - x1 * x2 - y1 * y2 - z1 * z2)^2
       = (x1*x1 + y1*y1 + z1*z1 + w1*w1) * (x2*x2 + y2*y2 + z2*z2 + w2*w2)"
  by algebra

lemma unitQ_productQ: "unitQ p \<Longrightarrow> unitQ q \<Longrightarrow> unitQ (productQ p q)"
  using unitQ_poly by (cases p; cases q) (simp add: power2_eq_square unitQ_def productQ_def)

section \<open>Mode machine\<close>

lemma incrementTime_keyFrames: "keyFrames (incrementTime dT g) = keyFrames g"
  by (simp add: incrementTime_def Let_def)

lemma ticks_keyFrames: "keyFrames (ticks dTs g) = keyFrames g"
  unfolding ticks_def by (induction dTs arbitrary: g) (simp_all add: incrementTime_keyFrames)


lemma incrementTime_below_max:
  "mode (incrementTime dT g) = playback \<Longrightarrow> time g < getMaxTime g
   \<Longrightarrow> time (incrementTime dT g) < getMaxTime (incrementTime dT g)"
  by (auto simp: incrementTime_def Let_def getMaxTime_def split: if_splits)

lemma incrementTime_playback_before:
  "mode (incrementTime dT g) = playback \<Longrightarrow> mode g = playback"
  by (auto simp: incrementTime_def Let_def split: if_splits)


text \<open>
  C6. The mode-toggle key in Edit mode enters Playback and sets the cursor to 0 exactly when
  there are at least two keyframes, and otherwise leaves the state as it is; in Playback it
  returns to Edit; and a tick that brings the cursor to \<open>maxTime = keyframeCount - 1\<close> or
  beyond sets the cursor to 0 and the mode to Edit, while a tick that stays below only
  advances the cursor.
\<close>

theorem mode_state_machine:
  "(mode g = edit \<longrightarrow>
      ((mode (onKeyP g) = playback \<and> time (onKeyP g) = 0) \<longleftrightarrow> 2 \<le> getNumKeyFrames g) \<and>
      (2 \<le> getNumKeyFrames g \<longrightarrow> onKeyP g = g\<lparr>mode := playback, time := 0\<rparr>) \<and>
      (getNumKeyFrames g < 2 \<longrightarrow> onKeyP g = g)) \<and>
   (mode g = playback \<longrightarrow> onKeyP g = g\<lparr>mode := edit\<rparr>) \<and>
   (mode g = playback \<and> time g + dT \<ge> getMaxTime g \<longrightarrow>
      incrementTime dT g = g\<lparr>time := 0, mode := edit\<rparr>) \<and>
   (mode g = playback \<and> time g + dT < getMaxTime g \<longrightarrow>
      incrementTime dT g = g\<lparr>time := time g + dT\<rparr>) \<and>
   (mode g = edit \<longrightarrow> incrementTime dT g = g)"
  by (auto simp: onKeyP_def incrementTime_def Let_def getMaxTime_def getNumKeyFrames_def)

theorem mode_state_machine_witness:
  "mode (gui0\<lparr>keyFrames := [0, 1, 2]\<rparr>) = edit \<and>
   2 \<le> getNumKeyFrames (gui0\<lparr>keyFrames := [0, 1, 2]\<rparr>) \<and>
   onKeyP (gui0\<lparr>keyFrames := [0, 1, 2]\<rparr>) = gui0\<lparr>keyFrames := [0, 1, 2], mode := playback\<rparr> \<and>
   getNumKeyFrames (gui0\<lparr>keyFrames := [0]\<rparr>) < 2 \<and>
   onKeyP (gui0\<lparr>keyFrames := [0]\<rparr>) = gui0\<lparr>keyFrames := [0]\<rparr> \<and>
   onKeyP (gui0\<lparr>keyFrames := [0, 1, 2], mode := playback, time := 1\<rparr>)
     = gui0\<lparr>keyFrames := [0, 1, 2], time := 1\<rparr> \<and>
   time (gui0\<lparr>keyFrames := [0, 1, 2], mode := playback, time := 1\<rparr>) + 3 / 2
     \<ge> getMaxTime (gui0\<lparr>keyFrames := [0, 1, 2], mode := playback, time := 1\<rparr>) \<and>
   incrementTime (3 / 2) (gui0\<lparr>keyFrames := [0, 1, 2], mode := playback, time := 1\<rparr>)
     = gui0\<lparr>keyFrames := [0, 1, 2]\<rparr> \<and>
   incrementTime (1 / 2) (gui0\<lparr>keyFrames := [0, 1, 2], mode := playback, time := 1\<rparr>)
     = gui0\<lparr>keyFrames := [0, 1, 2], mode := playback, time := 3 / 2\<rparr> \<and>
   incrementTime (1 / 2) (gui0\<lparr>keyFrames := [0, 1, 2]\<rparr>) = gui0\<lparr>keyFrames := [0, 1, 2]\<rparr>"
  using mode_state_machine [of "gui0\<lparr>keyFrames := [0, 1, 2]\<rparr>" "1 / 2"]
    mode_state_machine [of "gui0\<lparr>keyFrames := [0]\<rparr>" "1 / 2"]
    mode_state_machine [of "gui0\<lparr>keyFrames := [0, 1, 2], mode := playback, time := 1\<rparr>" "3 / 2"]
    mode_state_machine [of "gui0\<lparr>keyFrames := [0, 1, 2], mode := playback, time := 1\<rparr>" "1 / 2"]
  by (simp add: gui0_def getNumKeyFrames_def getMaxTime_def)




section \<open>Hierarchy recursion\<close>

lemma bindR_returns:
  "bindR m f = Some (Inr y) \<longleftrightarrow> (\<exists>x. m = Some (Inr x) \<and> f x = Some (Inr y))"
  by (auto simp: bindR_def split: option.splits sum.splits)

lemma updateMesh_Suc_returns:
  "updateMesh (Suc n) bones b Dp rp = Some (Inr bs) \<longleftrightarrow>
     (\<exists>boneInstance D_i rotation_i bones'.
        arrayAt bones b = Some boneInstance \<and>
        updateBranch (Suc n) bones b boneInstance Dp rp = Some (Inr (D_i, rotation_i)) \<and>
        updateMeshChildren n bones (children boneInstance) D_i rotation_i = Some (Inr bones') \<and>
        bs = bones'[nat b := (setPosition D_i (bones' ! nat b))\<lparr>rotation := rotation_i\<rparr>])"
  by (auto simp: bindR_returns split: option.splits)

lemma updateMeshChildren_Cons_returns:
  "updateMeshChildren n bones (c # cs) D r = Some (Inr bs) \<longleftrightarrow>
     (\<exists>b1. updateMesh n bones c (Some D) (Some r) = Some (Inr b1) \<and>
           updateMeshChildren n b1 cs D r = Some (Inr bs))"
  by (simp add: bindR_returns)

lemma calculateD_iAndTranslate_Suc_returns:
  "calculateD_iAndTranslate (Suc n) bones b Dp = Some (Inr bs) \<longleftrightarrow>
     (\<exists>boneInstance D_i bones'.
        arrayAt bones b = Some boneInstance \<and>
        calculateBranch (Suc n) bones b boneInstance Dp = Some (Inr D_i) \<and>
        calculateChildren n bones (children boneInstance) D_i = Some (Inr bones') \<and>
        bs = bones'[nat b := setPosition D_i (bones' ! nat b)])"
  by (auto simp: bindR_returns split: option.splits)

lemma calculateChildren_Cons_returns:
  "calculateChildren n bones (c # cs) D = Some (Inr bs) \<longleftrightarrow>
     (\<exists>b1. calculateD_iAndTranslate n bones c (Some D) = Some (Inr b1) \<and>
           calculateChildren n b1 cs D = Some (Inr bs))"
  by (simp add: bindR_returns)

lemma bindR_Some_Inr [simp]: "bindR (Some (Inr x)) f = f x"
  by (simp add: bindR_def)

lemma arrayAt_map: "arrayAt (map f xs) i = map_option f (arrayAt xs i)"
  by (auto simp: arrayAt_def nat_less_iff)

lemma arrayAt_Some: "0 \<le> i \<Longrightarrow> i < int (length xs) \<Longrightarrow> arrayAt xs i = Some (xs ! nat i)"
  by (simp add: arrayAt_def)

lemma rootDepth_less: "rootDepth n ps b = Some d \<Longrightarrow> d < n"
  by (induction n arbitrary: b d) (auto split: option.splits if_splits)

lemma rootDepth_in_range: "rootDepth n ps b = Some d \<Longrightarrow> 0 \<le> b \<and> b < int (length ps)"
  by (cases n) (auto simp: arrayAt_def split: option.splits if_splits)

lemma rootDepth_mono: "rootDepth n ps b = Some d \<Longrightarrow> n \<le> m \<Longrightarrow> rootDepth m ps b = Some d"
proof (induction n arbitrary: b d m)
  case 0
  then show ?case by simp
next
  case (Suc n)
  then obtain m' where m: "m = Suc m'" "n \<le> m'" by (cases m) auto
  from Suc.prems(1) show ?case unfolding m
    by (auto split: option.splits if_splits dest: Suc.IH [OF _ m(2)])
qed

lemma getD_i_returns:
  "rootDepth n (map parent bones) b = Some d \<Longrightarrow> \<exists>M. getD_i n bones b = Some (Inr M)"
proof (induction n arbitrary: b d)
  case 0
  then show ?case by simp
next
  case (Suc n)
  then show ?case
    by (fastforce simp: arrayAt_map split: option.splits if_splits)
qed

lemma getR_i_returns:
  "rootDepth n (map parent bones) b = Some d \<Longrightarrow> \<exists>q. getR_i n bones b = Some (Inr q)"
proof (induction n arbitrary: b d)
  case 0
  then show ?case by simp
next
  case (Suc n)
  then show ?case
    by (fastforce simp: arrayAt_map split: option.splits if_splits)
qed

lemma getU_i_returns:
  "rootDepth n (map parent bones) b = Some d \<Longrightarrow> \<exists>M. getU_i n bones b = Some (Inr M)"
proof (induction n arbitrary: b d)
  case 0
  then show ?case by simp
next
  case (Suc n)
  then show ?case
    by (fastforce simp: arrayAt_map split: option.splits if_splits)
qed

lemma static_setPosition [simp]: "static (setPosition D b) = static b"
  by (simp add: static_def setPosition_def)

lemma static_rotation_update [simp]: "static (b\<lparr>rotation := r\<rparr>) = static b"
  by (simp add: static_def)

lemma static_fields:
  "static a = static b \<Longrightarrow>
     parent a = parent b \<and> children a = children b \<and> T_ij a = T_ij b \<and> R_i a = R_i b \<and>
     initPosition a = initPosition b \<and> initEndpoint a = initEndpoint b \<and>
     isHighlight a = isHighlight b"
  by (cases a; cases b) (simp add: static_def)

lemma map_static_update:
  "static y = static (xs ! k) \<Longrightarrow> map static (xs[k := y]) = map static xs"
  by (simp add: map_update) (metis list_update_id map_update)

lemma map_static_nth:
  "map static bs = map static bones \<Longrightarrow> i < length bones \<Longrightarrow> static (bs ! i) = static (bones ! i)"
  by (metis length_map nth_map)

lemma map_static_length: "map static bs = map static bones \<Longrightarrow> length bs = length bones"
  by (metis length_map)

lemma map_static_parent: "map static bs = map static bones \<Longrightarrow> map parent bs = map parent bones"
proof -
  assume a: "map static bs = map static bones"
  have "parent = parent \<circ> static" by (rule ext) (simp add: static_def)
  hence "map parent bs = map parent (map static bs)" "map parent bones = map parent (map static bones)"
    by (metis map_map)+
  with a show ?thesis by simp
qed

lemma updateMeshChildren_static:
  assumes "\<And>bones b Dp rp bs. updateMesh n bones b Dp rp = Some (Inr bs) \<Longrightarrow> map static bs = map static bones"
  shows "updateMeshChildren n bones cs D r = Some (Inr bs) \<Longrightarrow> map static bs = map static bones"
proof (induction cs arbitrary: bones)
  case Nil
  then show ?case by simp
next
  case (Cons c cs)
  from Cons.prems obtain b1 where 1: "updateMesh n bones c (Some D) (Some r) = Some (Inr b1)"
    and 2: "updateMeshChildren n b1 cs D r = Some (Inr bs)"
    unfolding updateMeshChildren_Cons_returns by blast
  from assms [OF 1] Cons.IH [OF 2] show ?case by simp
qed

lemma updateMesh_static:
  "updateMesh n bones b Dp rp = Some (Inr bs) \<Longrightarrow> map static bs = map static bones"
proof (induction n arbitrary: bones b Dp rp bs)
  case 0
  then show ?case by simp
next
  case (Suc n)
  from Suc.prems obtain boneInstance :: bone and D_i rotation_i bones' where
    ch: "updateMeshChildren n bones (children boneInstance) D_i rotation_i = Some (Inr bones')"
    and bs: "bs = bones'[nat b := (setPosition D_i (bones' ! nat b))\<lparr>rotation := rotation_i\<rparr>]"
    unfolding updateMesh_Suc_returns by blast
  have "map static bones' = map static bones"
    using updateMeshChildren_static [OF Suc.IH ch] by simp
  thus ?case unfolding bs by (simp add: map_static_update)
qed

lemma calculateChildren_static:
  assumes "\<And>bones b Dp bs. calculateD_iAndTranslate n bones b Dp = Some (Inr bs) \<Longrightarrow> map static bs = map static bones"
  shows "calculateChildren n bones cs D = Some (Inr bs) \<Longrightarrow> map static bs = map static bones"
proof (induction cs arbitrary: bones)
  case Nil
  then show ?case by simp
next
  case (Cons c cs)
  from Cons.prems obtain b1 where 1: "calculateD_iAndTranslate n bones c (Some D) = Some (Inr b1)"
    and 2: "calculateChildren n b1 cs D = Some (Inr bs)"
    unfolding calculateChildren_Cons_returns by blast
  from assms [OF 1] Cons.IH [OF 2] show ?case by simp
qed

lemma calculateD_iAndTranslate_static:
  "calculateD_iAndTranslate n bones b Dp = Some (Inr bs) \<Longrightarrow> map static bs = map static bones"
proof (induction n arbitrary: bones b Dp bs)
  case 0
  then show ?case by simp
next
  case (Suc n)
  from Suc.prems obtain boneInstance :: bone and D_i bones' where
    ch: "calculateChildren n bones (children boneInstance) D_i = Some (Inr bones')"
    and bs: "bs = bones'[nat b := setPosition D_i (bones' ! nat b)]"
    unfolding calculateD_iAndTranslate_Suc_returns by blast
  have "map static bones' = map static bones"
    using calculateChildren_static [OF Suc.IH ch] by simp
  thus ?case unfolding bs by (simp add: map_static_update)
qed

lemma forest_rootDepth:
  "forest B \<Longrightarrow> i < length B \<Longrightarrow> \<exists>d. rootDepth (length B) (map parent B) (int i) = Some d"
  by (auto simp: forest_def list_all_iff)

lemma forest_child:
  assumes "forest B" and "i < length B" and "c \<in> set (children (B ! i))"
  shows "0 \<le> c \<and> c < int (length B) \<and> parent (B ! nat c) = int i"
proof -
  from assms have "map_option parent (arrayAt B c) = Some (int i)"
    by (auto simp: forest_def list_all_iff)
  thus ?thesis by (auto simp: arrayAt_def split: if_splits)
qed

lemma forest_child_depth:
  assumes f: "forest B" and i: "i < length B" and c: "c \<in> set (children (B ! i))"
    and d: "rootDepth (length B) (map parent B) (int i) = Some d"
  shows "rootDepth (length B) (map parent B) c = Some (Suc d)"
proof -
  from forest_child [OF f i c]
  have cr: "0 \<le> c" "c < int (length B)" and pc: "parent (B ! nat c) = int i"
    by simp_all
  hence nc: "nat c < length B" by simp
  have ic: "int (nat c) = c" using cr by simp
  from forest_rootDepth [OF f nc]
  obtain dc where dc: "rootDepth (length B) (map parent B) c = Some dc"
    unfolding ic by blast
  obtain k where k: "length B = Suc k" using i by (cases "length B") auto
  have at: "arrayAt (map parent B) c = Some (int i)"
    using cr pc by (simp add: arrayAt_def nc)
  from dc obtain d' where d': "rootDepth k (map parent B) (int i) = Some d'" "dc = Suc d'"
    unfolding k by (auto simp: at)
  from rootDepth_mono [OF d'(1), of "length B"] k d have "d' = d" by simp
  with dc d' show ?thesis by simp
qed

lemma updateMeshChildren_returns:
  assumes IH: "\<And>bones b d. map static bones = map static B \<Longrightarrow>
      rootDepth (length B) (map parent B) b = Some d \<Longrightarrow> length B \<le> n + d
      \<Longrightarrow> \<exists>bs. updateMesh n bones b (Some D) (Some r) = Some (Inr bs)"
  shows "map static bones = map static B \<Longrightarrow>
     \<forall>c\<in>set cs. \<exists>d. rootDepth (length B) (map parent B) c = Some d \<and> length B \<le> n + d \<Longrightarrow>
     \<exists>bs. updateMeshChildren n bones cs D r = Some (Inr bs)"
proof (induction cs arbitrary: bones)
  case Nil
  then show ?case by simp
next
  case (Cons c cs)
  from Cons.prems(2) obtain d where d: "rootDepth (length B) (map parent B) c = Some d" "length B \<le> n + d"
    by auto
  from IH [OF Cons.prems(1) d] obtain b1 where
    1: "updateMesh n bones c (Some D) (Some r) = Some (Inr b1)" by auto
  have "map static b1 = map static B" using updateMesh_static [OF 1] Cons.prems(1) by simp
  from Cons.IH [OF this] Cons.prems(2) obtain bs where "updateMeshChildren n b1 cs D r = Some (Inr bs)"
    by auto
  with 1 show ?case unfolding updateMeshChildren_Cons_returns by blast
qed

lemma updateBranch_returns:
  assumes "rootDepth fuel (map parent bones) b = Some d"
  shows "\<exists>D_i rotation_i. updateBranch fuel bones b boneInstance Dp rp = Some (Inr (D_i, rotation_i))"
proof -
  from getD_i_returns [OF assms] getR_i_returns [OF assms]
  obtain M q where "getD_i fuel bones b = Some (Inr M)" "getR_i fuel bones b = Some (Inr q)" by blast
  thus ?thesis by (simp add: updateBranch_def split: option.splits)
qed

lemma updateMesh_returns:
  assumes f: "forest B"
  shows "map static bones = map static B \<Longrightarrow>
      rootDepth (length B) (map parent B) b = Some d \<Longrightarrow> length B \<le> n + d \<Longrightarrow>
      (Dp = None \<or> rp = None \<longrightarrow> length B \<le> n)
      \<Longrightarrow> \<exists>bs. updateMesh n bones b Dp rp = Some (Inr bs)"
proof (induction n arbitrary: bones b Dp rp d)
  case 0
  from rootDepth_less [OF "0.prems"(2)] "0.prems"(3) show ?case by simp
next
  case (Suc n)
  let ?N = "length B"
  have len: "length bones = ?N" using Suc.prems(1) by (rule map_static_length)
  have ps: "map parent bones = map parent B" using Suc.prems(1) by (rule map_static_parent)
  from rootDepth_in_range [OF Suc.prems(2)] have br: "0 \<le> b" "b < int ?N" by simp_all
  hence nb: "nat b < ?N" by simp
  have ib: "int (nat b) = b" using br by simp
  have at: "arrayAt bones b = Some (bones ! nat b)" using br len by (simp add: arrayAt_def)
  have st: "static (bones ! nat b) = static (B ! nat b)"
    using map_static_nth [OF Suc.prems(1) nb] .
  have chd: "children (bones ! nat b) = children (B ! nat b)"
    using static_fields [OF st] by blast
  have "\<exists>D_i rotation_i.
      updateBranch (Suc n) bones b (bones ! nat b) Dp rp = Some (Inr (D_i, rotation_i))"
  proof (cases "Dp = None \<or> rp = None")
    case True
    with Suc.prems(4) have "?N \<le> Suc n" by simp
    from rootDepth_mono [OF Suc.prems(2) this]
    have "rootDepth (Suc n) (map parent bones) b = Some d" unfolding ps .
    from updateBranch_returns [OF this] show ?thesis .
  next
    case False
    then obtain D r where "Dp = Some D" "rp = Some r" by auto
    thus ?thesis by (simp add: updateBranch_def)
  qed
  then obtain D_i rotation_i where
    world: "updateBranch (Suc n) bones b (bones ! nat b) Dp rp = Some (Inr (D_i, rotation_i))"
    by blast
  have kids: "\<forall>c\<in>set (children (bones ! nat b)).
      \<exists>d'. rootDepth ?N (map parent B) c = Some d' \<and> ?N \<le> n + d'"
  proof
    fix c assume "c \<in> set (children (bones ! nat b))"
    hence c: "c \<in> set (children (B ! nat b))" by (simp add: chd)
    have "rootDepth ?N (map parent B) (int (nat b)) = Some d" using Suc.prems(2) ib by simp
    from forest_child_depth [OF f nb c this] Suc.prems(3)
    show "\<exists>d'. rootDepth ?N (map parent B) c = Some d' \<and> ?N \<le> n + d'" by auto
  qed
  have "\<exists>bs. updateMeshChildren n bones (children (bones ! nat b)) D_i rotation_i = Some (Inr bs)"
  proof (rule updateMeshChildren_returns [OF _ Suc.prems(1) kids])
    fix bones' b' d'
    assume "map static bones' = map static B" "rootDepth ?N (map parent B) b' = Some d'" "?N \<le> n + d'"
    thus "\<exists>bs. updateMesh n bones' b' (Some D_i) (Some rotation_i) = Some (Inr bs)"
      by (intro Suc.IH) auto
  qed
  then obtain bones' where "updateMeshChildren n bones (children (bones ! nat b)) D_i rotation_i = Some (Inr bones')"
    by blast
  with at world show ?case unfolding updateMesh_Suc_returns by blast
qed

lemma calculateChildren_returns:
  assumes IH: "\<And>bones b d. map static bones = map static B \<Longrightarrow>
      rootDepth (length B) (map parent B) b = Some d \<Longrightarrow> length B \<le> n + d
      \<Longrightarrow> \<exists>bs. calculateD_iAndTranslate n bones b (Some D) = Some (Inr bs)"
  shows "map static bones = map static B \<Longrightarrow>
     \<forall>c\<in>set cs. \<exists>d. rootDepth (length B) (map parent B) c = Some d \<and> length B \<le> n + d \<Longrightarrow>
     \<exists>bs. calculateChildren n bones cs D = Some (Inr bs)"
proof (induction cs arbitrary: bones)
  case Nil
  then show ?case by simp
next
  case (Cons c cs)
  from Cons.prems(2) obtain d where d: "rootDepth (length B) (map parent B) c = Some d" "length B \<le> n + d"
    by auto
  from IH [OF Cons.prems(1) d] obtain b1 where
    1: "calculateD_iAndTranslate n bones c (Some D) = Some (Inr b1)" by auto
  have "map static b1 = map static B"
    using calculateD_iAndTranslate_static [OF 1] Cons.prems(1) by simp
  from Cons.IH [OF this] Cons.prems(2) obtain bs where "calculateChildren n b1 cs D = Some (Inr bs)"
    by auto
  with 1 show ?case unfolding calculateChildren_Cons_returns by blast
qed

lemma calculateD_iAndTranslate_returns:
  assumes f: "forest B"
  shows "map static bones = map static B \<Longrightarrow>
      rootDepth (length B) (map parent B) b = Some d \<Longrightarrow> length B \<le> n + d \<Longrightarrow>
      (Dp = None \<longrightarrow> length B \<le> n)
      \<Longrightarrow> \<exists>bs. calculateD_iAndTranslate n bones b Dp = Some (Inr bs)"
proof (induction n arbitrary: bones b Dp d)
  case 0
  from rootDepth_less [OF "0.prems"(2)] "0.prems"(3) show ?case by simp
next
  case (Suc n)
  let ?N = "length B"
  have len: "length bones = ?N" using Suc.prems(1) by (rule map_static_length)
  have ps: "map parent bones = map parent B" using Suc.prems(1) by (rule map_static_parent)
  from rootDepth_in_range [OF Suc.prems(2)] have br: "0 \<le> b" "b < int ?N" by simp_all
  hence nb: "nat b < ?N" by simp
  have ib: "int (nat b) = b" using br by simp
  have at: "arrayAt bones b = Some (bones ! nat b)" using br len by (simp add: arrayAt_def)
  have st: "static (bones ! nat b) = static (B ! nat b)"
    using map_static_nth [OF Suc.prems(1) nb] .
  have chd: "children (bones ! nat b) = children (B ! nat b)"
    using static_fields [OF st] by blast
  have "\<exists>D_i. calculateBranch (Suc n) bones b (bones ! nat b) Dp = Some (Inr D_i)"
  proof (cases Dp)
    case None
    with Suc.prems(4) have "?N \<le> Suc n" by simp
    from rootDepth_mono [OF Suc.prems(2) this]
    have "rootDepth (Suc n) (map parent bones) b = Some d" unfolding ps .
    from getD_i_returns [OF this] show ?thesis unfolding calculateBranch_def None by simp
  next
    case (Some D)
    thus ?thesis by (simp add: calculateBranch_def)
  qed
  then obtain D_i where
    world: "calculateBranch (Suc n) bones b (bones ! nat b) Dp = Some (Inr D_i)"
    by blast
  have kids: "\<forall>c\<in>set (children (bones ! nat b)).
      \<exists>d'. rootDepth ?N (map parent B) c = Some d' \<and> ?N \<le> n + d'"
  proof
    fix c assume "c \<in> set (children (bones ! nat b))"
    hence c: "c \<in> set (children (B ! nat b))" by (simp add: chd)
    have "rootDepth ?N (map parent B) (int (nat b)) = Some d" using Suc.prems(2) ib by simp
    from forest_child_depth [OF f nb c this] Suc.prems(3)
    show "\<exists>d'. rootDepth ?N (map parent B) c = Some d' \<and> ?N \<le> n + d'" by auto
  qed
  have "\<exists>bs. calculateChildren n bones (children (bones ! nat b)) D_i = Some (Inr bs)"
  proof (rule calculateChildren_returns [OF _ Suc.prems(1) kids])
    fix bones' b' d'
    assume "map static bones' = map static B" "rootDepth ?N (map parent B) b' = Some d'" "?N \<le> n + d'"
    thus "\<exists>bs. calculateD_iAndTranslate n bones' b' (Some D_i) = Some (Inr bs)"
      by (intro Suc.IH) auto
  qed
  then obtain bones' where "calculateChildren n bones (children (bones ! nat b)) D_i = Some (Inr bones')"
    by blast
  with at world show ?case unfolding calculateD_iAndTranslate_Suc_returns by blast
qed

lemma recompute_returns:
  assumes "forest bones" and "b < length bones" and "length bones < fuel"
  shows "(\<exists>M. getD_i fuel bones (int b) = Some (Inr M)) \<and>
         (\<exists>q. getR_i fuel bones (int b) = Some (Inr q)) \<and>
         (\<exists>M. getU_i fuel bones (int b) = Some (Inr M)) \<and>
         (\<exists>bs. updateMesh fuel bones (int b) D_parent rot_parent = Some (Inr bs)) \<and>
         (\<exists>bs. calculateD_iAndTranslate fuel bones (int b) D_parent = Some (Inr bs))"
proof -
  from forest_rootDepth [OF assms(1,2)]
  obtain d where d: "rootDepth (length bones) (map parent bones) (int b) = Some d"
    by blast
  have le: "length bones \<le> fuel" using assms(3) by simp
  from rootDepth_mono [OF d le] have d': "rootDepth fuel (map parent bones) (int b) = Some d" .
  have 1: "length bones \<le> fuel + d" using le by simp
  from updateMesh_returns [OF assms(1) refl d 1, of D_parent rot_parent] le
  have u: "\<exists>bs. updateMesh fuel bones (int b) D_parent rot_parent = Some (Inr bs)" by blast
  from calculateD_iAndTranslate_returns [OF assms(1) refl d 1, of D_parent] le
  have c: "\<exists>bs. calculateD_iAndTranslate fuel bones (int b) D_parent = Some (Inr bs)" by blast
  from getD_i_returns [OF d'] getR_i_returns [OF d'] getU_i_returns [OF d'] u c
  show ?thesis by blast
qed

lemma upt3: "[0..<3] = [0, 1, 2]"
  by (simp add: upt_rec)

lemma newMesh_loaders3: "newMesh loaders3 = Inr skeleton3"
  by (simp add: newMesh_def loaders3_def skeleton3_def upt3 initT_ij_def newBone_def Let_def
      arrayAt_def translate_def setIdentity_def difference_def)

lemma rootDepth_chain3: "rootDepth 3 [-1, 0, 1] 2 = Some 2" "rootDepth 3 [-1, 0, 1] 1 = Some 1" "rootDepth 3 [-1, 0, 1] 0 = Some 0"
  by (simp_all add: eval_nat_numeral arrayAt_def)

lemma forest_skeleton3: "forest skeleton3"
  by (simp add: forest_def skeleton3_def upt3 rootDepth_chain3 arrayAt_def)

text \<open>
  C10. On a skeleton that is a forest, for every bone index of the skeleton and any fuel above
  the number of bones, \<open>getD_i\<close>, \<open>getR_i\<close>, \<open>getU_i\<close>, \<open>updateMesh\<close> and
  \<open>calculateD_iAndTranslate\<close> return (with no TypeError), whatever parent transform and
  rotation the last two are called with.
\<close>

theorem hierarchy_recursion_terminates:
  assumes "forest bones" and "b < length bones" and "length bones < fuel"
  shows "(\<exists>M. getD_i fuel bones (int b) = Some (Inr M)) \<and>
         (\<exists>q. getR_i fuel bones (int b) = Some (Inr q)) \<and>
         (\<exists>M. getU_i fuel bones (int b) = Some (Inr M)) \<and>
         (\<exists>bs. updateMesh fuel bones (int b) D_parent rot_parent = Some (Inr bs)) \<and>
         (\<exists>bs. calculateD_iAndTranslate fuel bones (int b) D_parent = Some (Inr bs))"
  using recompute_returns [OF assms] .

theorem hierarchy_recursion_terminates_witness:
  "forest skeleton3 \<and> 1 < length skeleton3 \<and> length skeleton3 < 4 \<and>
   (\<exists>M. getD_i 4 skeleton3 1 = Some (Inr M)) \<and>
   (\<exists>q. getR_i 4 skeleton3 1 = Some (Inr q)) \<and>
   (\<exists>M. getU_i 4 skeleton3 1 = Some (Inr M)) \<and>
   (\<exists>bs. updateMesh 4 skeleton3 1 None None = Some (Inr bs)) \<and>
   (\<exists>bs. calculateD_iAndTranslate 4 skeleton3 1 None = Some (Inr bs))"
proof -
  have l: "length skeleton3 = 3" by (simp add: skeleton3_def)
  have 1: "1 < length skeleton3" "length skeleton3 < 4" by (simp_all add: l)
  from hierarchy_recursion_terminates [OF forest_skeleton3 1, of None None] forest_skeleton3 1
  show ?thesis by simp
qed

section \<open>Bone length\<close>

lemma rigid_translate: "rigid (translate setIdentity v)"
  by (cases v)
     (simp add: rigid_def affine_def translate_def setIdentity_def distance_def multiplyPt3_def
        difference_def split: vec3.splits)

lemma rigid_pureTranslation: "pureTranslation m \<Longrightarrow> rigid m"
  by (auto simp: pureTranslation_def split: prod.splits intro: rigid_translate)

lemma rigid_local: "posed b \<Longrightarrow> rigid (product (T_ij b) (toMat4 (R_i b)))"
  by (simp add: posed_def rigid_product rigid_pureTranslation rigid_toMat4)

lemma getD_i_rigid:
  "\<forall>x\<in>set bones. posed x \<Longrightarrow> getD_i n bones b = Some (Inr M) \<Longrightarrow> rigid M"
proof (induction n arbitrary: b M)
  case 0
  then show ?case by simp
next
  case (Suc n)
  from Suc.prems(2) obtain curBone where at: "arrayAt bones b = Some curBone"
    by (auto split: option.splits)
  hence "curBone \<in> set bones" by (auto simp: arrayAt_def split: if_splits)
  with Suc.prems(1) have loc: "rigid (product (T_ij curBone) (toMat4 (R_i curBone)))"
    by (simp add: rigid_local)
  show ?case
  proof (cases "parent curBone = -1")
    case True
    with Suc.prems(2) at loc show ?thesis by simp
  next
    case False
    with Suc.prems(2) at obtain Dp where
      Dp: "getD_i n bones (parent curBone) = Some (Inr Dp)"
      and M: "M = product Dp (product (T_ij curBone) (toMat4 (R_i curBone)))"
      by (auto simp: bindR_returns)
    from Suc.IH [OF Suc.prems(1) Dp] loc show ?thesis unfolding M by (rule rigid_product)
  qed
qed

lemma distance_sym: "distance a b = distance b a"
  by (cases a; cases b) (simp add: distance_def difference_def squaredLength_def algebra_simps)

lemma distance_origin: "distance (Vec3 0 0 0) (difference e p) = distance p e"
  by (cases e; cases p) (simp add: distance_def difference_def squaredLength_def algebra_simps)

lemma lengthKept_setPosition: "rigid D \<Longrightarrow> lengthKept (setPosition D b)"
  by (simp add: lengthKept_def setPosition_def rigid_def distance_origin)

lemma lengthKept_rotation [simp]: "lengthKept (b\<lparr>rotation := r\<rparr>) = lengthKept b"
  by (simp add: lengthKept_def)

lemma posed_static: "posed (static b) = posed b"
  by (simp add: posed_def static_def)

lemma posed_transfer:
  assumes "map static bs = map static bones" and "\<forall>x\<in>set bones. posed x"
  shows "\<forall>x\<in>set bs. posed x"
proof -
  have "\<forall>x\<in>set (map static bones). posed x" using assms(2) by (simp add: posed_static)
  hence "\<forall>x\<in>set (map static bs). posed x" by (simp only: assms(1))
  thus ?thesis by (simp add: posed_static)
qed

lemma updateBranch_rigid:
  assumes "\<forall>x\<in>set bones. posed x" and "arrayAt bones b = Some boneInstance"
    and "\<forall>D. Dp = Some D \<longrightarrow> rigid D"
    and "updateBranch fuel bones b boneInstance Dp rp = Some (Inr (D_i, rotation_i))"
  shows "rigid D_i"
proof (cases "\<exists>D r. Dp = Some D \<and> rp = Some r")
  case True
  then obtain D r where s: "Dp = Some D" "rp = Some r" by blast
  from assms(2) have "boneInstance \<in> set bones" by (auto simp: arrayAt_def split: if_splits)
  with assms(1) have "rigid (product (T_ij boneInstance) (toMat4 (R_i boneInstance)))"
    by (simp add: rigid_local)
  moreover have "rigid D" using assms(3) s by simp
  moreover have "D_i = product D (product (T_ij boneInstance) (toMat4 (R_i boneInstance)))"
    using assms(4) by (simp add: updateBranch_def s)
  ultimately show ?thesis by (simp add: rigid_product)
next
  case False
  hence "updateBranch fuel bones b boneInstance Dp rp =
      bindR (getD_i fuel bones b) (\<lambda>D. bindR (getR_i fuel bones b) (\<lambda>r. Some (Inr (D, r))))"
    by (auto simp: updateBranch_def split: option.splits)
  with assms(4) have "getD_i fuel bones b = Some (Inr D_i)"
    by (auto simp: bindR_returns)
  from getD_i_rigid [OF assms(1) this] show ?thesis .
qed

lemma calculateBranch_rigid:
  assumes "\<forall>x\<in>set bones. posed x" and "arrayAt bones b = Some boneInstance"
    and "\<forall>D. Dp = Some D \<longrightarrow> rigid D"
    and "calculateBranch fuel bones b boneInstance Dp = Some (Inr D_i)"
  shows "rigid D_i"
proof (cases Dp)
  case None
  with assms(4) have "getD_i fuel bones b = Some (Inr D_i)" by (simp add: calculateBranch_def)
  from getD_i_rigid [OF assms(1) this] show ?thesis .
next
  case (Some D)
  from assms(2) have "boneInstance \<in> set bones" by (auto simp: arrayAt_def split: if_splits)
  with assms(1) have "rigid (product (T_ij boneInstance) (toMat4 (R_i boneInstance)))"
    by (simp add: rigid_local)
  moreover have "rigid D" using assms(3) Some by simp
  moreover have "D_i = product D (product (T_ij boneInstance) (toMat4 (R_i boneInstance)))"
    using assms(4) by (simp add: calculateBranch_def Some)
  ultimately show ?thesis by (simp add: rigid_product)
qed

lemma updateMeshChildren_lengthKept:
  assumes IH: "\<And>bones b bs. updateMesh n bones b (Some D) (Some r) = Some (Inr bs) \<Longrightarrow>
      \<forall>x\<in>set bones. posed x \<Longrightarrow>
      \<forall>k<length bones. lengthKept (bones ! k) \<longrightarrow> lengthKept (bs ! k)"
  shows "updateMeshChildren n bones cs D r = Some (Inr bs) \<Longrightarrow> \<forall>x\<in>set bones. posed x \<Longrightarrow>
      \<forall>k<length bones. lengthKept (bones ! k) \<longrightarrow> lengthKept (bs ! k)"
proof (induction cs arbitrary: bones)
  case Nil
  then show ?case by simp
next
  case (Cons c cs)
  from Cons.prems(1) obtain b1 where 1: "updateMesh n bones c (Some D) (Some r) = Some (Inr b1)"
    and 2: "updateMeshChildren n b1 cs D r = Some (Inr bs)"
    unfolding updateMeshChildren_Cons_returns by blast
  have st: "map static b1 = map static bones" using updateMesh_static [OF 1] .
  have p1: "\<forall>x\<in>set b1. posed x" using posed_transfer [OF st Cons.prems(2)] .
  have l1: "length b1 = length bones" using map_static_length [OF st] .
  from IH [OF 1 Cons.prems(2)] Cons.IH [OF 2 p1] show ?case by (simp add: l1)
qed

lemma updateMesh_lengthKept:
  "updateMesh n bones b Dp rp = Some (Inr bs) \<Longrightarrow> \<forall>x\<in>set bones. posed x \<Longrightarrow>
   \<forall>D. Dp = Some D \<longrightarrow> rigid D \<Longrightarrow>
   lengthKept (bs ! nat b) \<and> (\<forall>k<length bones. lengthKept (bones ! k) \<longrightarrow> lengthKept (bs ! k))"
proof (induction n arbitrary: bones b Dp rp bs)
  case 0
  then show ?case by simp
next
  case (Suc n)
  from Suc.prems(1) obtain boneInstance :: bone and D_i rotation_i bones' where
    at: "arrayAt bones b = Some boneInstance"
    and world: "updateBranch (Suc n) bones b boneInstance Dp rp = Some (Inr (D_i, rotation_i))"
    and ch: "updateMeshChildren n bones (children boneInstance) D_i rotation_i = Some (Inr bones')"
    and bs: "bs = bones'[nat b := (setPosition D_i (bones' ! nat b))\<lparr>rotation := rotation_i\<rparr>]"
    unfolding updateMesh_Suc_returns by blast
  have rD: "rigid D_i" using updateBranch_rigid [OF Suc.prems(2) at Suc.prems(3) world] .
  have st: "map static bones' = map static bones"
    using updateMeshChildren_static [OF updateMesh_static ch] .
  have len: "length bones' = length bones" using map_static_length [OF st] .
  have nb: "nat b < length bones" using at by (auto simp: arrayAt_def split: if_splits)
  have kids: "\<forall>k<length bones. lengthKept (bones ! k) \<longrightarrow> lengthKept (bones' ! k)"
  proof (rule updateMeshChildren_lengthKept [OF _ ch Suc.prems(2)])
    fix bones0 b0 bs0
    assume "updateMesh n bones0 b0 (Some D_i) (Some rotation_i) = Some (Inr bs0)"
      and "\<forall>x\<in>set bones0. posed x"
    from Suc.IH [OF this] rD
    show "\<forall>k<length bones0. lengthKept (bones0 ! k) \<longrightarrow> lengthKept (bs0 ! k)" by simp
  qed
  have new: "lengthKept ((setPosition D_i (bones' ! nat b))\<lparr>rotation := rotation_i\<rparr>)"
    using rD by (simp add: lengthKept_setPosition)
  show ?case unfolding bs using kids new nb len by (simp add: nth_list_update)
qed

lemma calculateChildren_lengthKept:
  assumes IH: "\<And>bones b bs. calculateD_iAndTranslate n bones b (Some D) = Some (Inr bs) \<Longrightarrow>
      \<forall>x\<in>set bones. posed x \<Longrightarrow>
      \<forall>k<length bones. lengthKept (bones ! k) \<longrightarrow> lengthKept (bs ! k)"
  shows "calculateChildren n bones cs D = Some (Inr bs) \<Longrightarrow> \<forall>x\<in>set bones. posed x \<Longrightarrow>
      \<forall>k<length bones. lengthKept (bones ! k) \<longrightarrow> lengthKept (bs ! k)"
proof (induction cs arbitrary: bones)
  case Nil
  then show ?case by simp
next
  case (Cons c cs)
  from Cons.prems(1) obtain b1 where 1: "calculateD_iAndTranslate n bones c (Some D) = Some (Inr b1)"
    and 2: "calculateChildren n b1 cs D = Some (Inr bs)"
    unfolding calculateChildren_Cons_returns by blast
  have st: "map static b1 = map static bones" using calculateD_iAndTranslate_static [OF 1] .
  have p1: "\<forall>x\<in>set b1. posed x" using posed_transfer [OF st Cons.prems(2)] .
  have l1: "length b1 = length bones" using map_static_length [OF st] .
  from IH [OF 1 Cons.prems(2)] Cons.IH [OF 2 p1] show ?case by (simp add: l1)
qed

lemma calculateD_iAndTranslate_lengthKept:
  "calculateD_iAndTranslate n bones b Dp = Some (Inr bs) \<Longrightarrow> \<forall>x\<in>set bones. posed x \<Longrightarrow>
   \<forall>D. Dp = Some D \<longrightarrow> rigid D \<Longrightarrow>
   lengthKept (bs ! nat b) \<and> (\<forall>k<length bones. lengthKept (bones ! k) \<longrightarrow> lengthKept (bs ! k))"
proof (induction n arbitrary: bones b Dp bs)
  case 0
  then show ?case by simp
next
  case (Suc n)
  from Suc.prems(1) obtain boneInstance :: bone and D_i bones' where
    at: "arrayAt bones b = Some boneInstance"
    and world: "calculateBranch (Suc n) bones b boneInstance Dp = Some (Inr D_i)"
    and ch: "calculateChildren n bones (children boneInstance) D_i = Some (Inr bones')"
    and bs: "bs = bones'[nat b := setPosition D_i (bones' ! nat b)]"
    unfolding calculateD_iAndTranslate_Suc_returns by blast
  have rD: "rigid D_i" using calculateBranch_rigid [OF Suc.prems(2) at Suc.prems(3) world] .
  have st: "map static bones' = map static bones"
    using calculateChildren_static [OF calculateD_iAndTranslate_static ch] .
  have len: "length bones' = length bones" using map_static_length [OF st] .
  have nb: "nat b < length bones" using at by (auto simp: arrayAt_def split: if_splits)
  have kids: "\<forall>k<length bones. lengthKept (bones ! k) \<longrightarrow> lengthKept (bones' ! k)"
  proof (rule calculateChildren_lengthKept [OF _ ch Suc.prems(2)])
    fix bones0 b0 bs0
    assume "calculateD_iAndTranslate n bones0 b0 (Some D_i) = Some (Inr bs0)"
      and "\<forall>x\<in>set bones0. posed x"
    from Suc.IH [OF this] rD
    show "\<forall>k<length bones0. lengthKept (bones0 ! k) \<longrightarrow> lengthKept (bs0 ! k)" by simp
  qed
  have new: "lengthKept (setPosition D_i (bones' ! nat b))"
    using rD by (simp add: lengthKept_setPosition)
  show ?case unfolding bs using kids new nb len by (simp add: nth_list_update)
qed

lemma lengthKept_rotateBone [simp]: "lengthKept (rotateBone axis angle b) = lengthKept b"
  by (simp add: lengthKept_def rotateBone_def)

text \<open>
  C4. On a forest-shaped skeleton in which every local rotation \<open>R_i\<close> is a unit quaternion
  (as after any sequence of \<open>rotateBone\<close> calls whose accumulated rotations are unit) and every
  \<open>T_ij\<close> is the translation the Mesh constructor stores, the recompute from a bone, by
  \<open>updateMesh\<close> or by \<open>calculateD_iAndTranslate\<close>, returns, and afterwards the distance
  between \<open>position\<close> and \<open>endpoint\<close> of that bone equals the distance between its
  \<open>initPosition\<close> and \<open>initEndpoint\<close>; every bone for which the equality held before, as
  it does for all bones in the bind pose, still has it. \<open>rotateBone\<close> itself leaves both
  distances as they are.
\<close>

theorem bone_length_invariance:
  assumes "forest bones" and "b < length bones" and "length bones < fuel"
    and "\<forall>x\<in>set bones. posed x"
  shows "(\<exists>bs. updateMesh fuel bones (int b) None None = Some (Inr bs) \<and>
            lengthKept (bs ! b) \<and>
            (\<forall>k<length bones. lengthKept (bones ! k) \<longrightarrow> lengthKept (bs ! k))) \<and>
         (\<exists>bs. calculateD_iAndTranslate fuel bones (int b) None = Some (Inr bs) \<and>
            lengthKept (bs ! b) \<and>
            (\<forall>k<length bones. lengthKept (bones ! k) \<longrightarrow> lengthKept (bs ! k)))"
proof -
  from recompute_returns [OF assms(1,2,3), of None None]
  obtain bs1 bs2 where 1: "updateMesh fuel bones (int b) None None = Some (Inr bs1)"
    and 2: "calculateD_iAndTranslate fuel bones (int b) None = Some (Inr bs2)"
    by blast
  from updateMesh_lengthKept [OF 1 assms(4)] calculateD_iAndTranslate_lengthKept [OF 2 assms(4)]
  show ?thesis using 1 2 by simp
qed

lemma turned3_eq:
  "turned3 =
     [\<lparr>parent = -1, children = [1], position = Vec3 1 0 0, endpoint = Vec3 1 1 0,
       rotation = setIdentityQ, isHighlight = False,
       T_ij = Mat4 (1, 0, 0, 0) (0, 1, 0, 0) (0, 0, 1, 0) (1, 0, 0, 1), R_i = Quat 0 0 1 0,
       initPosition = Vec3 1 0 0, initEndpoint = Vec3 1 1 0\<rparr>,
      \<lparr>parent = 0, children = [2], position = Vec3 1 1 0, endpoint = Vec3 1 2 0,
       rotation = setIdentityQ, isHighlight = False,
       T_ij = Mat4 (1, 0, 0, 0) (0, 1, 0, 0) (0, 0, 1, 0) (0, 1, 0, 1), R_i = setIdentityQ,
       initPosition = Vec3 1 1 0, initEndpoint = Vec3 1 2 0\<rparr>,
      \<lparr>parent = 1, children = [], position = Vec3 1 2 0, endpoint = Vec3 3 2 0,
       rotation = setIdentityQ, isHighlight = False,
       T_ij = Mat4 (1, 0, 0, 0) (0, 1, 0, 0) (0, 0, 1, 0) (0, 1, 0, 1), R_i = setIdentityQ,
       initPosition = Vec3 1 2 0, initEndpoint = Vec3 3 2 0\<rparr>]"
  by (simp add: turned3_def skeleton3_def rotateBone_def fromAxisAngle_def productQ_def
      setIdentityQ_def Let_def)

lemma forest_turned3: "forest turned3"
  by (simp add: forest_def turned3_eq upt3 rootDepth_chain3 arrayAt_def)

lemma posed_turned3: "\<forall>x\<in>set turned3. posed x"
  by (simp add: turned3_eq posed_def unitQ_def setIdentityQ_def pureTranslation_def translate_def
      setIdentity_def)

theorem bone_length_invariance_witness:
  "forest turned3 \<and> 0 < length turned3 \<and> length turned3 < 4 \<and> list_all posed turned3 \<and>
   (\<exists>bs. updateMesh 4 turned3 0 None None = Some (Inr bs) \<and>
      lengthKept (bs ! 0) \<and>
      (\<forall>k<length turned3. lengthKept (turned3 ! k) \<longrightarrow> lengthKept (bs ! k))) \<and>
   (\<exists>bs. calculateD_iAndTranslate 4 turned3 0 None = Some (Inr bs) \<and>
      lengthKept (bs ! 0) \<and>
      (\<forall>k<length turned3. lengthKept (turned3 ! k) \<longrightarrow> lengthKept (bs ! k)))"
proof -
  have l: "length turned3 = 3" by (simp add: turned3_eq)
  have 1: "0 < length turned3" "length turned3 < 4" by (simp_all add: l)
  from bone_length_invariance [OF forest_turned3 1 posed_turned3] forest_turned3 1 posed_turned3
  show ?thesis by (simp add: list_all_iff)
qed

section \<open>Picking\<close>

lemma sqrt_25th: "sqrt (1 / 25) = 1 / 5"
  by (rule real_sqrt_unique) (simp_all add: power2_eq_square)

lemma normalize_unit:
  "squaredLength v = 1 \<Longrightarrow> normalize v = v"
  by (cases v) (simp add: normalize_def scale_def)

lemma boneY_frame:
  "boneIntersection s (Vec3 0 0 1) (Vec3 0 (1/2) 3) boneY
     = Inr (intersectCilinder (Vec3 (-3) (1/2) 0) (Vec3 (-1) 0 0) 1)"
proof -
  have ax: "difference (endpoint boneY) (position boneY) = Vec3 0 1 0"
    by (simp add: boneY_def difference_def)
  have d: "distance (endpoint boneY) (position boneY) = 1"
    by (simp add: distance_def ax squaredLength_def)
  have tang: "normalize (Vec3 0 1 0) = Vec3 0 1 0"
    by (rule normalize_unit) (simp add: squaredLength_def)
  have tr: "dot (Vec3 0 1 0) (Vec3 0 1 0) = 1" by (simp add: dot_def)
  have y: "normalize (cross (Vec3 0 1 0) (Vec3 1 0 0)) = Vec3 0 0 (-1)"
    by (simp add: cross_def normalize_unit squaredLength_def)
  have x: "normalize (cross (Vec3 0 1 0) (Vec3 0 0 (-1))) = Vec3 (-1) 0 0"
    by (simp add: cross_def normalize_unit squaredLength_def)
  have inv: "inverse3 s (Vec3 0 0 (-1), Vec3 0 1 0, Vec3 (-1) 0 0)
      = Some (Vec3 0 0 (-1), Vec3 0 1 0, Vec3 (-1) 0 0)"
    by (simp add: inverse3_def dot_def cross_def scale_def Let_def)
  have p: "difference (Vec3 0 (1/2) 3) (position boneY) = Vec3 0 (1/2) 3"
    by (simp add: boneY_def difference_def)
  have m1: "multiplyVec3_3 (Vec3 0 0 (-1), Vec3 0 1 0, Vec3 (-1) 0 0) (Vec3 0 0 1) = Vec3 (-1) 0 0"
    by (simp add: multiplyVec3_3_def)
  have m2: "multiplyVec3_3 (Vec3 0 0 (-1), Vec3 0 1 0, Vec3 (-1) 0 0) (Vec3 0 (1/2) 3) = Vec3 (-3) (1/2) 0"
    by (simp add: multiplyVec3_3_def)
  show ?thesis
    unfolding boneIntersection_def Let_def ax d tang tr
    by (simp add: y x inv p m1 m2)
qed


lemma behind_hit: "intersectCilinder (Vec3 (-3) (1/2) 0) (Vec3 (-1) 0 0) 1 = Some (- (31 / 10))"
proof -
  have n: "normalize (Vec3 (-1) 0 0) = Vec3 (-1) 0 0"
    by (rule normalize_unit) (simp add: squaredLength_def)
  have disc: "2 * (- 3 * - 1 + 0 * 0) * (2 * (- 3 * - 1 + 0 * 0))
      - 4 * (- 1 * - 1 + 0 * 0) * (- 3 * - 3 + 0 * 0 - RADIUS_BONE * RADIUS_BONE) = (1 / 25 :: real)"
    by (simp add: RADIUS_BONE_def)
  have big: "- (31 / 10) < MAX_VALUE" "- (29 / 10) < MAX_VALUE"
    by (simp_all add: MAX_VALUE_def)
  show ?thesis
    unfolding intersectCilinder_def n Let_def vec3.sel disc sqrt_25th
    using big by (simp add: min_def)
qed

lemma highlightScan_cases:
  "highlightScan ts i h m = h \<or> (\<exists>j<length ts. highlightScan ts i h m = Some (i + j))"
proof (induction ts arbitrary: i h m)
  case Nil
  then show ?case by simp
next
  case (Cons t ts)
  show ?case
  proof (cases t)
    case None
    with Cons.IH [of "Suc i" h m] show ?thesis by auto
  next
    case (Some v)
    show ?thesis
    proof (cases "v \<le> m")
      case True
      with Some Cons.IH [of "Suc i" "Some i" v] show ?thesis by auto
    next
      case False
      with Some Cons.IH [of "Suc i" h m] show ?thesis by auto
    qed
  qed
qed

lemma highlightScan_None:
  "\<forall>t\<in>set ts. t = None \<Longrightarrow> highlightScan ts i h m = h"
  by (induction ts arbitrary: i) auto

text \<open>What the scan returns: the last index that holds the least value among those not above
  the starting bound, if there is one.\<close>

lemma highlightScan_least:
  "highlightScan ts i h m = Some r \<Longrightarrow> h = None \<or> (\<exists>r0. h = Some r0 \<and> r0 < i) \<Longrightarrow>
   (i \<le> r \<and> r < i + length ts \<and>
      (\<exists>v. ts ! (r - i) = Some v \<and> v \<le> m \<and> (\<forall>j<length ts. \<forall>w. ts ! j = Some w \<longrightarrow> v \<le> w)))
   \<or> (h = Some r \<and> (\<forall>j<length ts. \<forall>w. ts ! j = Some w \<longrightarrow> m < w))"
proof (induction ts arbitrary: i h m)
  case Nil
  then show ?case by simp
next
  case (Cons t ts)
  show ?case
  proof (cases t)
    case None
    from Cons.prems(2) have h': "h = None \<or> (\<exists>r0. h = Some r0 \<and> r0 < Suc i)" by auto
    from Cons.prems(1) None have "highlightScan ts (Suc i) h m = Some r" by simp
    from Cons.IH [OF this h'] show ?thesis
    proof
      assume a: "Suc i \<le> r \<and> r < Suc i + length ts \<and>
        (\<exists>v. ts ! (r - Suc i) = Some v \<and> v \<le> m \<and> (\<forall>j<length ts. \<forall>w. ts ! j = Some w \<longrightarrow> v \<le> w))"
      then obtain v where v: "ts ! (r - Suc i) = Some v" "v \<le> m"
        "\<forall>j<length ts. \<forall>w. ts ! j = Some w \<longrightarrow> v \<le> w" by blast
      from a have "Suc i \<le> r" by blast
      hence ri: "r - i = Suc (r - Suc i)" by simp
      have "\<forall>j<length (t # ts). \<forall>w. (t # ts) ! j = Some w \<longrightarrow> v \<le> w"
        using v(3) None by (auto simp: nth_Cons split: nat.splits)
      with a v ri show ?thesis by auto
    next
      assume a: "h = Some r \<and> (\<forall>j<length ts. \<forall>w. ts ! j = Some w \<longrightarrow> m < w)"
      hence "\<forall>j<length (t # ts). \<forall>w. (t # ts) ! j = Some w \<longrightarrow> m < w"
        using None by (auto simp: nth_Cons split: nat.splits)
      with a show ?thesis by blast
    qed
  next
    case (Some v0)
    show ?thesis
    proof (cases "v0 \<le> m")
      case True
      with Cons.prems(1) Some have "highlightScan ts (Suc i) (Some i) v0 = Some r" by simp
      from Cons.IH [OF this] show ?thesis
      proof
        show "Some i = None \<or> (\<exists>r0. Some i = Some r0 \<and> r0 < Suc i)" by simp
      next
        assume a: "Suc i \<le> r \<and> r < Suc i + length ts \<and>
          (\<exists>v. ts ! (r - Suc i) = Some v \<and> v \<le> v0 \<and> (\<forall>j<length ts. \<forall>w. ts ! j = Some w \<longrightarrow> v \<le> w))"
        then obtain v where v: "ts ! (r - Suc i) = Some v" "v \<le> v0"
          "\<forall>j<length ts. \<forall>w. ts ! j = Some w \<longrightarrow> v \<le> w" by blast
        from a have "Suc i \<le> r" by blast
      hence ri: "r - i = Suc (r - Suc i)" by simp
        have "\<forall>j<length (t # ts). \<forall>w. (t # ts) ! j = Some w \<longrightarrow> v \<le> w"
          using v(2,3) Some by (auto simp: nth_Cons split: nat.splits)
        moreover have "v \<le> m" using v(2) True by simp
        ultimately show ?thesis using a v ri by auto
      next
        assume a: "Some i = Some r \<and> (\<forall>j<length ts. \<forall>w. ts ! j = Some w \<longrightarrow> v0 < w)"
        hence r: "r = i" by simp
        have "\<forall>j<length (t # ts). \<forall>w. (t # ts) ! j = Some w \<longrightarrow> v0 \<le> w"
          using a Some by (auto simp: nth_Cons split: nat.splits)
        with r Some True show ?thesis by auto
      qed
    next
      case False
      from Cons.prems(2) have h': "h = None \<or> (\<exists>r0. h = Some r0 \<and> r0 < Suc i)" by auto
      from Cons.prems(1) Some False have "highlightScan ts (Suc i) h m = Some r" by simp
      from Cons.IH [OF this h'] show ?thesis
      proof
        assume a: "Suc i \<le> r \<and> r < Suc i + length ts \<and>
          (\<exists>v. ts ! (r - Suc i) = Some v \<and> v \<le> m \<and> (\<forall>j<length ts. \<forall>w. ts ! j = Some w \<longrightarrow> v \<le> w))"
        then obtain v where v: "ts ! (r - Suc i) = Some v" "v \<le> m"
          "\<forall>j<length ts. \<forall>w. ts ! j = Some w \<longrightarrow> v \<le> w" by blast
        from a have "Suc i \<le> r" by blast
      hence ri: "r - i = Suc (r - Suc i)" by simp
        have "\<forall>j<length (t # ts). \<forall>w. (t # ts) ! j = Some w \<longrightarrow> v \<le> w"
          using v(2,3) Some False by (auto simp: nth_Cons split: nat.splits)
        with a v ri show ?thesis by auto
      next
        assume a: "h = Some r \<and> (\<forall>j<length ts. \<forall>w. ts ! j = Some w \<longrightarrow> m < w)"
        hence "\<forall>j<length (t # ts). \<forall>w. (t # ts) ! j = Some w \<longrightarrow> m < w"
          using Some False by (auto simp: nth_Cons split: nat.splits)
        with a show ?thesis by blast
      qed
    qed
  qed
qed

lemma highlightScan_None_result:
  "highlightScan ts i h m = None \<Longrightarrow>
     h = None \<and> (\<forall>j<length ts. \<forall>w. ts ! j = Some w \<longrightarrow> m < w)"
proof (induction ts arbitrary: i h m)
  case Nil
  then show ?case by simp
next
  case (Cons t ts)
  show ?case
  proof (cases t)
    case None
    with Cons.prems have "highlightScan ts (Suc i) h m = None" by simp
    from Cons.IH [OF this] None show ?thesis by (auto simp: nth_Cons split: nat.splits)
  next
    case (Some v)
    show ?thesis
    proof (cases "v \<le> m")
      case True
      with Cons.prems Some have "highlightScan ts (Suc i) (Some i) v = None" by simp
      from Cons.IH [OF this] show ?thesis by simp
    next
      case False
      with Cons.prems Some have "highlightScan ts (Suc i) h m = None" by simp
      from Cons.IH [OF this] Some False show ?thesis by (auto simp: nth_Cons split: nat.splits)
    qed
  qed
qed

lemma highlight_selected:
  assumes "highlight ts bones g = (bs, g')" and "length ts = length bones"
  shows "length bs = length bones \<and>
         (\<forall>j<length bs. isHighlight (bs ! j) \<longleftrightarrow> highlightScan ts 0 None MAX_SAFE_INTEGER = Some j) \<and>
         (ts \<noteq> [] \<longrightarrow> selectedBone g' = highlightScan ts 0 None MAX_SAFE_INTEGER)"
proof (cases "highlightScan ts 0 None MAX_SAFE_INTEGER")
  case None
  with assms show ?thesis by (auto simp: highlight_def Let_def)
next
  case (Some i)
  from highlightScan_cases [of ts 0 None MAX_SAFE_INTEGER] Some have i: "i < length ts" by auto
  with assms Some show ?thesis
    by (auto simp: highlight_def Let_def nth_list_update split: if_splits)
qed

text \<open>At most one bone is highlighted after the pass.\<close>

lemma highlight_at_most_one:
  assumes "highlight ts bones g = (bs, g')" and "length ts = length bones"
    and "j < length bs" and "k < length bs" and "isHighlight (bs ! j)" and "isHighlight (bs ! k)"
  shows "j = k"
  using highlight_selected [OF assms(1,2)] assms(3-6) by auto

text \<open>
  The bone chosen holds the least value that \<open>intersectCilinder\<close> returned, whatever its sign,
  provided that value is not above \<open>MAX_SAFE_INTEGER\<close>; no bone is chosen exactly when every
  value returned is above \<open>MAX_SAFE_INTEGER\<close> or \<open>NaN\<close>.
\<close>

lemma highlight_least:
  assumes "highlight ts bones g = (bs, g')" and "length ts = length bones" and "ts \<noteq> []"
  shows "(\<forall>r. selectedBone g' = Some r \<longrightarrow>
            r < length ts \<and>
            (\<exists>v. ts ! r = Some v \<and> v \<le> MAX_SAFE_INTEGER \<and>
                 (\<forall>j<length ts. \<forall>w. ts ! j = Some w \<longrightarrow> v \<le> w))) \<and>
         (selectedBone g' = None \<longrightarrow>
            (\<forall>j<length ts. \<forall>w. ts ! j = Some w \<longrightarrow> MAX_SAFE_INTEGER < w))"
proof -
  from highlight_selected [OF assms(1,2)] assms(3)
  have sel: "selectedBone g' = highlightScan ts 0 None MAX_SAFE_INTEGER" by simp
  show ?thesis
  proof (intro conjI allI impI)
    fix r assume "selectedBone g' = Some r"
    hence s: "highlightScan ts 0 None MAX_SAFE_INTEGER = Some r" by (simp add: sel)
    from highlightScan_least [OF s] show "r < length ts" by auto
    from highlightScan_least [OF s]
    show "\<exists>v. ts ! r = Some v \<and> v \<le> MAX_SAFE_INTEGER \<and>
                 (\<forall>j<length ts. \<forall>w. ts ! j = Some w \<longrightarrow> v \<le> w)" by auto
  next
    fix j w assume "selectedBone g' = None" "j < length ts" "ts ! j = Some w"
    with highlightScan_None_result [of ts 0 None MAX_SAFE_INTEGER] sel
    show "MAX_SAFE_INTEGER < w" by auto
  qed
qed

lemma boneY_not_on_ray: "\<not> (\<exists>t\<ge>0. onBoneCylinder boneY (rayPoint (Vec3 0 (1/2) 3) (Vec3 0 0 1) t))"
proof
  assume "\<exists>t\<ge>0. onBoneCylinder boneY (rayPoint (Vec3 0 (1/2) 3) (Vec3 0 0 1) t)"
  then obtain t :: real where t: "0 \<le> t"
    and on: "onBoneCylinder boneY (rayPoint (Vec3 0 (1/2) 3) (Vec3 0 0 1) t)" by blast
  have ax: "difference (endpoint boneY) (position boneY) = Vec3 0 1 0"
    by (simp add: boneY_def difference_def)
  have tang: "normalize (Vec3 0 1 0) = Vec3 0 1 0"
    by (rule normalize_unit) (simp add: squaredLength_def)
  from on have "(- 3 - t) * (- 3 - t) = RADIUS_BONE * RADIUS_BONE"
    unfolding onBoneCylinder_def Let_def ax tang
    by (simp add: rayPoint_def boneY_def difference_def cross_def squaredLength_def)
  hence "(3 + t) * (3 + t) = RADIUS_BONE * RADIUS_BONE"
    by (simp add: algebra_simps)
  moreover have "9 \<le> (3 + t) * (3 + t)"
    using t mult_mono [of 3 "3 + t" 3 "3 + t"] by simp
  ultimately show False by (simp add: RADIUS_BONE_def)
qed

text \<open>
  C2, at a failing input. One bone from \<open>(0,0,0)\<close> to \<open>(0,1,0)\<close>; the camera at
  \<open>(0, 1/2, 3)\<close>; the mouse ray pointing along \<open>+z\<close>, away from the bone. No point of the
  ray lies on the bone's cylinder, yet the pass highlights and selects the bone: the hit
  distance \<open>intersectCilinder\<close> returns is \<open>-3.1\<close>, behind the ray's origin, and nothing
  checks its sign.
\<close>

theorem pick_selects_bone_behind_ray:
  "\<not> (\<exists>t\<ge>0. onBoneCylinder boneY (rayPoint (Vec3 0 (1/2) 3) (Vec3 0 0 1) t)) \<and>
   pick s (Vec3 0 0 1) (Vec3 0 (1/2) 3) [boneY] hover0
     = Inr ([boneY\<lparr>isHighlight := True\<rparr>], hover0\<lparr>selectedBone := Some 0\<rparr>)"
proof -
  have "- (31 / 10) \<le> MAX_SAFE_INTEGER" by (simp add: MAX_SAFE_INTEGER_def)
  hence "pick s (Vec3 0 0 1) (Vec3 0 (1/2) 3) [boneY] hover0
     = Inr ([boneY\<lparr>isHighlight := True\<rparr>], hover0\<lparr>selectedBone := Some 0\<rparr>)"
    by (simp add: pick_def hover0_def boneY_frame behind_hit highlight_def Let_def)
  with boneY_not_on_ray show ?thesis by blast
qed

section \<open>A bone of length zero\<close>

lemma normalize_zero: "normalize (Vec3 0 0 0) = Vec3 0 0 0"
  by (simp add: normalize_def squaredLength_def)

lemma cross_zero: "cross (Vec3 0 0 0) v = Vec3 0 0 0"
  by (simp add: cross_def)

text \<open>
  A bone whose endpoint equals its position: the three frame vectors are zero, the matrix
  handed to \<open>inverse()\<close> is singular, and what the pass does next is what the library's
  \<open>inverse()\<close> returns for a singular matrix.
\<close>

lemma degenerate_boneIntersection:
  assumes "endpoint b = position b"
  shows "boneIntersection singular mouse_dir pos b =
     (case singular of
        None \<Rightarrow> Inl TypeError
      | Some Tmatrix \<Rightarrow>
          Inr (intersectCilinder (multiplyVec3_3 Tmatrix (difference pos (position b)))
                 (multiplyVec3_3 Tmatrix mouse_dir) 0))"
proof -
  have ax: "difference (position b) (position b) = Vec3 0 0 0"
    by (simp add: difference_def)
  have d: "distance (position b) (position b) = 0"
    by (simp add: distance_def ax squaredLength_def)
  have inv: "inverse3 singular (Vec3 0 0 0, Vec3 0 0 0, Vec3 0 0 0) = singular"
    by (simp add: inverse3_def dot_def cross_def Let_def)
  show ?thesis
    unfolding boneIntersection_def assms Let_def ax d normalize_zero cross_zero inv
    by (simp split: option.splits)
qed

lemma degenerate_null_raises:
  "endpoint b = position b \<Longrightarrow> pick None mouse_dir pos [b] g = (if dragging g then Inr ([b], g) else Inl TypeError)"
  by (simp add: pick_def degenerate_boneIntersection)

lemma intersectCilinder_zero_dir: "intersectCilinder p (Vec3 0 0 0) d = None"
  by (simp add: intersectCilinder_def normalize_zero Let_def)

lemma degenerate_zero_matrix_unselectable:
  "endpoint b = position b \<Longrightarrow>
   boneIntersection (Some (Vec3 0 0 0, Vec3 0 0 0, Vec3 0 0 0)) mouse_dir pos b = Inr None"
  by (simp add: degenerate_boneIntersection multiplyVec3_3_def intersectCilinder_zero_dir)

section \<open>Keys without a selection\<close>

lemma onArrow_no_selection:
  "selectedBone g = None \<Longrightarrow> onArrow angle fuel g bones = Some (Inl TypeError)"
  by (simp add: onArrow_def boneAtSelection_def)

lemma dragBone_no_selection:
  "selectedBone g = None \<Longrightarrow> dragBone fuel forward angle g bones = Some (Inl TypeError)"
  by (simp add: dragBone_def boneAtSelection_def)

text \<open>
  C3, at a failing input. In the state \<open>reset\<close> leaves (no bone selected), on a loaded
  skeleton, the ArrowLeft and ArrowRight handlers raise a TypeError: they read
  \<open>mesh.bones[this.selectedBone].initEndpoint\<close> before the \<open>isNaN\<close> guard that would have
  rolled the camera.
\<close>

theorem arrow_key_without_selection_raises:
  "onKeydown fuel ArrowLeft hover0 skeleton3 = Some (Inl TypeError) \<and>
   onKeydown fuel ArrowRight hover0 skeleton3 = Some (Inl TypeError)"
  by (simp add: onKeydown_def onArrow_no_selection hover0_def)

section \<open>Keyframes and the live skeleton\<close>

lemma alloc_prefix: "alloc x st = (a, st') \<Longrightarrow> prefix st st'"
  by (auto simp: alloc_def)

lemma prefix_nth: "prefix st st' \<Longrightarrow> a < length st \<Longrightarrow> st' ! a = st ! a"
  by (auto simp: prefix_def nth_append)

lemma prefix_length: "prefix st st' \<Longrightarrow> length st \<le> length st'"
  by (auto simp: prefix_def)

lemma at_prefix:
  assumes "prefix st st'" and "a < length st"
  shows "vecAt st' a = vecAt st a" and "quatAt st' a = quatAt st a" and "matAt st' a = matAt st a"
  using assms prefix_nth [OF assms] prefix_length [OF assms(1)]
  by (simp_all add: vecAt_def quatAt_def matAt_def)

lemma view_prefix: "validRefs st x \<Longrightarrow> prefix st st' \<Longrightarrow> view st' x = view st x"
  by (simp add: view_def validRefs_def refs_def at_prefix)

lemma validRefs_prefix: "validRefs st x \<Longrightarrow> prefix st st' \<Longrightarrow> validRefs st' x"
  using prefix_length [of st st'] by (auto simp: validRefs_def list_all_iff)

lemma copyBone_prefix: "copyBone bone st = (k, st') \<Longrightarrow> prefix st st'"
  by (auto simp: copyBone_def alloc_def Let_def)

lemma KeyFrame_prefix: "KeyFrame bones st = (kf, st') \<Longrightarrow> prefix st st'"
proof (induction bones arbitrary: st kf st')
  case Nil
  then show ?case by simp
next
  case (Cons bone bones)
  obtain k st1 where 1: "copyBone bone st = (k, st1)" by (cases "copyBone bone st")
  obtain ks st2 where 2: "KeyFrame bones st1 = (ks, st2)" by (cases "KeyFrame bones st1")
  from Cons.prems 1 2 have "st' = st2" by simp
  with copyBone_prefix [OF 1] Cons.IH [OF 2] show ?case by (auto intro: prefix_order.trans)
qed

lemma rotateBone_o_prefix: "rotateBone_o axis angle b st = (b', st') \<Longrightarrow> prefix st st'"
  by (auto simp: rotateBone_o_def alloc_def Let_def)

lemma setPosition_o_prefix: "setPosition_o D k bones st = (bones', st') \<Longrightarrow> prefix st st'"
  by (auto simp: setPosition_o_def alloc_def Let_def)

lemma setRotation_o_prefix: "setRotation_o r k bones st = (bones', st') \<Longrightarrow> prefix st st'"
  by (auto simp: setRotation_o_def alloc_def Let_def)

lemma setPose_o_prefix: "setPose_o D r k bones st = (bones', st') \<Longrightarrow> prefix st st'"
proof -
  assume a: "setPose_o D r k bones st = (bones', st')"
  obtain b1 st1 where 1: "setPosition_o D k bones st = (b1, st1)"
    by (cases "setPosition_o D k bones st")
  with a have 2: "setRotation_o r k b1 st1 = (bones', st')" by (simp add: setPose_o_def)
  from setPosition_o_prefix [OF 1] setRotation_o_prefix [OF 2] show ?thesis
    by (rule prefix_order.trans)
qed

lemma calculateChildren_o_prefix:
  assumes "\<And>bones st b Dp bones' st'.
      calculateD_iAndTranslate_o n bones st b Dp = Some (Inr (bones', st')) \<Longrightarrow> prefix st st'"
  shows "calculateChildren_o n bones st cs D = Some (Inr (bones', st')) \<Longrightarrow> prefix st st'"
proof (induction cs arbitrary: bones st)
  case Nil
  then show ?case by simp
next
  case (Cons c cs)
  from Cons.prems obtain b1 st1 where
    1: "calculateD_iAndTranslate_o n bones st c (Some D) = Some (Inr (b1, st1))"
    and 2: "calculateChildren_o n b1 st1 cs D = Some (Inr (bones', st'))"
    by (auto simp: bindR_returns)
  from assms [OF 1] Cons.IH [OF 2] show ?case by (rule prefix_order.trans)
qed

lemma calculateD_iAndTranslate_o_prefix:
  "calculateD_iAndTranslate_o n bones st b Dp = Some (Inr (bones', st')) \<Longrightarrow> prefix st st'"
proof (induction n arbitrary: bones st b Dp bones' st')
  case 0
  then show ?case by simp
next
  case (Suc n)
  from Suc.prems obtain boneInstance :: boneObj and D_i b1 st1 where
    ch: "calculateChildren_o n bones st (o_children boneInstance) D_i = Some (Inr (b1, st1))"
    and r: "setPosition_o D_i (nat b) b1 st1 = (bones', st')"
    by (auto simp: bindR_returns split: option.splits)
  from calculateChildren_o_prefix [OF Suc.IH ch] setPosition_o_prefix [OF r]
  show ?case by (rule prefix_order.trans)
qed

lemma updateMeshChildren_o_prefix:
  assumes "\<And>bones st b Dp rp bones' st'.
      updateMesh_o n bones st b Dp rp = Some (Inr (bones', st')) \<Longrightarrow> prefix st st'"
  shows "updateMeshChildren_o n bones st cs D r = Some (Inr (bones', st')) \<Longrightarrow> prefix st st'"
proof (induction cs arbitrary: bones st)
  case Nil
  then show ?case by simp
next
  case (Cons c cs)
  from Cons.prems obtain b1 st1 where
    1: "updateMesh_o n bones st c (Some D) (Some r) = Some (Inr (b1, st1))"
    and 2: "updateMeshChildren_o n b1 st1 cs D r = Some (Inr (bones', st'))"
    by (auto simp: bindR_returns)
  from assms [OF 1] Cons.IH [OF 2] show ?case by (rule prefix_order.trans)
qed

lemma updateMesh_o_prefix:
  "updateMesh_o n bones st b Dp rp = Some (Inr (bones', st')) \<Longrightarrow> prefix st st'"
proof (induction n arbitrary: bones st b Dp rp bones' st')
  case 0
  then show ?case by simp
next
  case (Suc n)
  from Suc.prems obtain boneInstance :: boneObj and D_i rotation_i b1 st1 where
    ch: "updateMeshChildren_o n bones st (o_children boneInstance) D_i rotation_i
          = Some (Inr (b1, st1))"
    and r: "setPose_o D_i rotation_i (nat b) b1 st1 = (bones', st')"
    by (auto simp: bindR_returns split: option.splits)
  from updateMeshChildren_o_prefix [OF Suc.IH ch] setPose_o_prefix [OF r]
  show ?case by (rule prefix_order.trans)
qed

lemma interpolate_prefix:
  "interpolate sl k1 k2 t is bones st = Inr (bones', st') \<Longrightarrow> prefix st st'"
proof (induction "is" arbitrary: bones st)
  case Nil
  then show ?case by simp
next
  case (Cons i "is")
  from Cons.prems obtain a b where
    ab: "arrayAt k1 (int i) = Some a" "arrayAt k2 (int i) = Some b"
    by (auto split: option.splits)
  define st1 where "st1 = st @ [QuatObj (sl (quatAt st (o_rotation a)) (quatAt st (o_rotation b)) t)]"
  define st2 where "st2 = st1 @ [QuatObj (sl (quatAt st1 (o_R_i a)) (quatAt st1 (o_R_i b)) t)]"
  from Cons.prems ab have
    "interpolate sl k1 k2 t is (bones[i := (bones ! i)\<lparr>o_rotation := length st, o_R_i := length st1\<rparr>]) st2
       = Inr (bones', st')"
    by (simp add: alloc_def Let_def st1_def st2_def)
  from Cons.IH [OF this] have "prefix st2 st'" .
  moreover have "prefix st st2" by (simp add: st1_def st2_def)
  ultimately show ?case by (rule prefix_order.trans [rotated])
qed

lemma recomputeRoots_prefix:
  "recomputeRoots fuel is bones st = Some (Inr (bones', st')) \<Longrightarrow> prefix st st'"
proof (induction "is" arbitrary: bones st)
  case Nil
  then show ?case by simp
next
  case (Cons i "is")
  show ?case
  proof (cases "o_parent (bones ! i) = -1")
    case True
    with Cons.prems obtain b1 st1 where
      1: "calculateD_iAndTranslate_o fuel bones st (int i) None = Some (Inr (b1, st1))"
      and 2: "recomputeRoots fuel is b1 st1 = Some (Inr (bones', st'))"
      by (auto simp: bindR_returns)
    from calculateD_iAndTranslate_o_prefix [OF 1] Cons.IH [OF 2] show ?thesis
      by (rule prefix_order.trans)
  next
    case False
    with Cons.prems Cons.IH show ?thesis by simp
  qed
qed

lemma playbackTick_prefix:
  "playbackTick fuel sl k1 k2 t bones st = Some (Inr (bones', st')) \<Longrightarrow> prefix st st'"
proof -
  assume a: "playbackTick fuel sl k1 k2 t bones st = Some (Inr (bones', st'))"
  then obtain b1 st1 where 1: "interpolate sl k1 k2 t [0..<length bones] bones st = Inr (b1, st1)"
    and 2: "recomputeRoots fuel [0..<length b1] b1 st1 = Some (Inr (bones', st'))"
    by (auto simp: playbackTick_def split: sum.splits)
  from interpolate_prefix [OF 1] recomputeRoots_prefix [OF 2] show ?thesis
    by (rule prefix_order.trans)
qed

lemma act_prefix:
  "act fuel sl a bones st = Some (Inr (bones', st')) \<Longrightarrow> prefix st st'"
proof (cases a)
  case (Rotate i axis angle)
  assume "act fuel sl a bones st = Some (Inr (bones', st'))"
  with Rotate obtain b b' where "rotateBone_o axis angle b st = (b', st')"
    by (auto simp: act_def split: option.splits prod.splits)
  thus ?thesis by (rule rotateBone_o_prefix)
next
  case (Update b)
  assume "act fuel sl a bones st = Some (Inr (bones', st'))"
  with Update show ?thesis by (simp add: act_def updateMesh_o_prefix)
next
  case (Playback k1 k2 t)
  assume "act fuel sl a bones st = Some (Inr (bones', st'))"
  with Playback show ?thesis by (simp add: act_def playbackTick_prefix)
next
  case Capture
  assume "act fuel sl a bones st = Some (Inr (bones', st'))"
  with Capture have "st' = snd (KeyFrame bones st)" by (auto simp: act_def)
  thus ?thesis using KeyFrame_prefix [of bones st "fst (KeyFrame bones st)" st'] by simp
qed

lemma acts_prefix:
  "acts fuel sl as bones st = Some (Inr (bones', st')) \<Longrightarrow> prefix st st'"
proof (induction as arbitrary: bones st)
  case Nil
  then show ?case by simp
next
  case (Cons a as)
  from Cons.prems obtain b1 st1 where 1: "act fuel sl a bones st = Some (Inr (b1, st1))"
    and 2: "acts fuel sl as b1 st1 = Some (Inr (bones', st'))"
    by (auto simp: bindR_returns)
  from act_prefix [OF 1] Cons.IH [OF 2] show ?case by (rule prefix_order.trans)
qed

lemma copyBone_eq:
  assumes "validRefs st bone"
  shows "copyBone bone st =
     (\<lparr>o_parent = o_parent bone, o_children = o_children bone,
       o_position = length st, o_endpoint = length st + 1, o_rotation = length st + 2,
       o_isHighlight = False, o_T_ij = o_T_ij bone, o_R_i = o_R_i bone,
       o_initPosition = length st + 3, o_initEndpoint = length st + 4\<rparr>,
      st @ [VecObj (vecAt st (o_position bone)), VecObj (vecAt st (o_endpoint bone)),
            QuatObj (quatAt st (o_rotation bone)), VecObj (vecAt st (o_initPosition bone)),
            VecObj (vecAt st (o_initEndpoint bone))])"
proof -
  from assms have v: "o_endpoint bone < length st" "o_rotation bone < length st"
    "o_initPosition bone < length st" "o_initEndpoint bone < length st"
    by (simp_all add: validRefs_def refs_def)
  have 1: "vecAt (st @ zs) (o_endpoint bone) = vecAt st (o_endpoint bone)" for zs
    using v(1) by (simp add: at_prefix)
  have 2: "quatAt (st @ zs) (o_rotation bone) = quatAt st (o_rotation bone)" for zs
    using v(2) by (simp add: at_prefix)
  have 3: "vecAt (st @ zs) (o_initPosition bone) = vecAt st (o_initPosition bone)" for zs
    using v(3) by (simp add: at_prefix)
  have 4: "vecAt (st @ zs) (o_initEndpoint bone) = vecAt st (o_initEndpoint bone)" for zs
    using v(4) by (simp add: at_prefix)
  show ?thesis
    unfolding copyBone_def alloc_def Let_def prod.case append_assoc 1 2 3 4
    by simp
qed

lemma at_append_new:
  "vecAt (st @ zs) (length st + i) = (if i < length zs then (case zs ! i of VecObj v \<Rightarrow> v | _ \<Rightarrow> Vec3 0 0 0) else Vec3 0 0 0)"
  "quatAt (st @ zs) (length st + i) = (if i < length zs then (case zs ! i of QuatObj q \<Rightarrow> q | _ \<Rightarrow> setIdentityQ) else setIdentityQ)"
  by (simp_all add: vecAt_def quatAt_def nth_append)

lemma copyBone_view:
  assumes "validRefs st bone" and "copyBone bone st = (k, st')"
  shows "view st' k = (view st bone)\<lparr>isHighlight := False\<rparr>" and "validRefs st' k"
    and "o_R_i k = o_R_i bone" and "o_T_ij k = o_T_ij bone"
proof -
  from assms(1) have v: "o_T_ij bone < length st" "o_R_i bone < length st"
    by (simp_all add: validRefs_def refs_def)
  from assms(2) have k: "k = \<lparr>o_parent = o_parent bone, o_children = o_children bone,
       o_position = length st, o_endpoint = length st + 1, o_rotation = length st + 2,
       o_isHighlight = False, o_T_ij = o_T_ij bone, o_R_i = o_R_i bone,
       o_initPosition = length st + 3, o_initEndpoint = length st + 4\<rparr>"
    and st': "st' = st @ [VecObj (vecAt st (o_position bone)), VecObj (vecAt st (o_endpoint bone)),
            QuatObj (quatAt st (o_rotation bone)), VecObj (vecAt st (o_initPosition bone)),
            VecObj (vecAt st (o_initEndpoint bone))]"
    unfolding copyBone_eq [OF assms(1)] by simp_all
  have p: "prefix st st'" unfolding st' by simp
  have 0: "vecAt st' (length st) = vecAt st (o_position bone)"
    using at_append_new(1) [of st _ 0] unfolding st' by simp
  have "vecAt st' (length st + 1) = vecAt st (o_endpoint bone)"
    unfolding st' at_append_new by simp
  hence 1: "vecAt st' (Suc (length st)) = vecAt st (o_endpoint bone)" by simp
  have "quatAt st' (length st + 2) = quatAt st (o_rotation bone)"
    unfolding st' at_append_new by simp
  hence 2: "quatAt st' (Suc (Suc (length st))) = quatAt st (o_rotation bone)" by simp
  have 3: "vecAt st' (length st + 3) = vecAt st (o_initPosition bone)"
    unfolding st' at_append_new by simp
  have 4: "vecAt st' (length st + 4) = vecAt st (o_initEndpoint bone)"
    unfolding st' at_append_new by simp
  show "view st' k = (view st bone)\<lparr>isHighlight := False\<rparr>"
    unfolding view_def k
    by (simp add: 0 1 2 3 4 at_prefix [OF p v(1)] at_prefix [OF p v(2)])
  show "validRefs st' k" using v by (simp add: validRefs_def refs_def k st')
  show "o_R_i k = o_R_i bone" "o_T_ij k = o_T_ij bone" by (simp_all add: k)
qed

lemma KeyFrame_view:
  assumes "\<forall>x\<in>set bones. validRefs st x" and "KeyFrame bones st = (kf, st')"
  shows "map (view st') kf = map (\<lambda>x. (view st x)\<lparr>isHighlight := False\<rparr>) bones \<and>
         (\<forall>k\<in>set kf. validRefs st' k) \<and>
         map o_R_i kf = map o_R_i bones \<and> map o_T_ij kf = map o_T_ij bones"
  using assms
proof (induction bones arbitrary: st kf st')
  case Nil
  then show ?case by simp
next
  case (Cons bone bones)
  obtain k st1 where 1: "copyBone bone st = (k, st1)" by (cases "copyBone bone st")
  obtain ks st2 where 2: "KeyFrame bones st1 = (ks, st2)" by (cases "KeyFrame bones st1")
  from Cons.prems(2) 1 2 have kf: "kf = k # ks" and st': "st' = st2" by simp_all
  have vb: "validRefs st bone" using Cons.prems(1) by simp
  have p1: "prefix st st1" using copyBone_prefix [OF 1] .
  have p2: "prefix st1 st2" using KeyFrame_prefix [OF 2] .
  have v1: "\<forall>x\<in>set bones. validRefs st1 x"
    using Cons.prems(1) validRefs_prefix [OF _ p1] by simp
  note IH = Cons.IH [OF v1 2]
  have same: "map (\<lambda>x. (view st1 x)\<lparr>isHighlight := False\<rparr>) bones
      = map (\<lambda>x. (view st x)\<lparr>isHighlight := False\<rparr>) bones"
    using Cons.prems(1) view_prefix [OF _ p1] by simp
  have k1: "view st2 k = (view st bone)\<lparr>isHighlight := False\<rparr>"
    using view_prefix [OF copyBone_view(2) [OF vb 1] p2] copyBone_view(1) [OF vb 1] by simp
  have k2: "validRefs st2 k" using validRefs_prefix [OF copyBone_view(2) [OF vb 1] p2] .
  show ?case unfolding kf st'
    using IH same k1 k2 copyBone_view(3,4) [OF vb 1] by simp
qed

text \<open>
  The objects a capture allocates are the copied fields of the keyframe's bones, each once,
  and an operation on the live skeleton stores in a bone only references it held or objects
  it allocates.
\<close>

lemma copyBone_copied:
  assumes "validRefs st bone" and "copyBone bone st = (k, st')"
  shows "copied k = [length st..<length st']"
proof -
  from assms(2) have k: "copied k = [length st, length st + 1, length st + 2, length st + 3, length st + 4]"
    and l: "length st' = length st + 5"
    unfolding copyBone_eq [OF assms(1)] by (auto simp: copied_def)
  have "[length st..<length st + 5] = [length st, length st + 1, length st + 2, length st + 3, length st + 4]"
    by (simp add: upt_rec)
  thus ?thesis by (simp add: k l)
qed

lemma KeyFrame_copied:
  assumes "\<forall>x\<in>set bones. validRefs st x" and "KeyFrame bones st = (kf, st')"
  shows "concat (map copied kf) = [length st..<length st']"
  using assms
proof (induction bones arbitrary: st kf st')
  case Nil
  then show ?case by simp
next
  case (Cons bone bones)
  obtain k st1 where 1: "copyBone bone st = (k, st1)" by (cases "copyBone bone st")
  obtain ks st2 where 2: "KeyFrame bones st1 = (ks, st2)" by (cases "KeyFrame bones st1")
  from Cons.prems(2) 1 2 have kf: "kf = k # ks" and st': "st' = st2" by simp_all
  have vb: "validRefs st bone" using Cons.prems(1) by simp
  have p1: "prefix st st1" using copyBone_prefix [OF 1] .
  have p2: "prefix st1 st2" using KeyFrame_prefix [OF 2] .
  have v1: "\<forall>x\<in>set bones. validRefs st1 x"
    using Cons.prems(1) validRefs_prefix [OF _ p1] by simp
  have "concat (map copied kf) = [length st..<length st1] @ [length st1..<length st2]"
    unfolding kf using copyBone_copied [OF vb 1] Cons.IH [OF v1 2] by simp
  also have "\<dots> = [length st..<length st2]"
    using prefix_length [OF p1] prefix_length [OF p2]
    by (metis le_Suc_ex upt_add_eq_append)
  finally show ?case by (simp add: st')
qed

lemma allRefs_update:
  "allRefs P bones \<Longrightarrow> list_all P (refs y) \<Longrightarrow> allRefs P (bones[k := y])"
  unfolding allRefs_def list_all_iff
  by (auto dest!: set_update_subset_insert [THEN subsetD])

lemma allRefs_nth: "allRefs P bones \<Longrightarrow> k < length bones \<Longrightarrow> list_all P (refs (bones ! k))"
  by (simp add: allRefs_def list_all_length)

lemma allRefs_update_fields:
  assumes "allRefs P bones" and "\<And>x. list_all P (refs x) \<Longrightarrow> list_all P (refs (f x))"
  shows "allRefs P (bones[k := f (bones ! k)])"
proof (cases "k < length bones")
  case True
  from assms(2) [OF allRefs_nth [OF assms(1) True]] show ?thesis
    by (rule allRefs_update [OF assms(1)])
next
  case False
  thus ?thesis using assms(1) by (simp add: list_update_beyond)
qed

lemma setPosition_o_refs:
  assumes "setPosition_o D k bones st = (bones', st')" and "allRefs P bones"
    and "\<forall>a. length st \<le> a \<longrightarrow> P a"
  shows "allRefs P bones'"
proof -
  from assms(1) have b': "bones' = bones[k := (\<lambda>x. x\<lparr>o_position := length st,
      o_endpoint := Suc (length st)\<rparr>) (bones ! k)]"
    by (auto simp: setPosition_o_def alloc_def Let_def)
  show ?thesis unfolding b'
    by (rule allRefs_update_fields [OF assms(2)]) (simp add: refs_def assms(3))
qed

lemma setRotation_o_refs:
  assumes "setRotation_o r k bones st = (bones', st')" and "allRefs P bones"
    and "\<forall>a. length st \<le> a \<longrightarrow> P a"
  shows "allRefs P bones'"
proof -
  from assms(1) have b': "bones' = bones[k := (\<lambda>x. x\<lparr>o_rotation := length st\<rparr>) (bones ! k)]"
    by (auto simp: setRotation_o_def alloc_def Let_def)
  show ?thesis unfolding b'
    by (rule allRefs_update_fields [OF assms(2)]) (simp add: refs_def assms(3))
qed

lemma above_prefix:
  "\<forall>a. length st \<le> a \<longrightarrow> P a \<Longrightarrow> prefix st st' \<Longrightarrow> \<forall>a. length st' \<le> a \<longrightarrow> P a"
  using prefix_length [of st st'] by auto

lemma setPose_o_refs:
  assumes a: "setPose_o D r k bones st = (bones', st')" and "allRefs P bones"
    and "\<forall>a. length st \<le> a \<longrightarrow> P a"
  shows "allRefs P bones'"
proof -
  obtain b1 st1 where 1: "setPosition_o D k bones st = (b1, st1)"
    by (cases "setPosition_o D k bones st")
  with a have 2: "setRotation_o r k b1 st1 = (bones', st')" by (simp add: setPose_o_def)
  from setRotation_o_refs [OF 2 setPosition_o_refs [OF 1 assms(2,3)]
      above_prefix [OF assms(3) setPosition_o_prefix [OF 1]]]
  show ?thesis .
qed

lemma calculateChildren_o_refs:
  assumes "\<And>bones st b Dp bones' st'.
      calculateD_iAndTranslate_o n bones st b Dp = Some (Inr (bones', st')) \<Longrightarrow>
      allRefs P bones \<Longrightarrow> \<forall>a. length st \<le> a \<longrightarrow> P a \<Longrightarrow> allRefs P bones'"
  shows "calculateChildren_o n bones st cs D = Some (Inr (bones', st')) \<Longrightarrow>
      allRefs P bones \<Longrightarrow> \<forall>a. length st \<le> a \<longrightarrow> P a \<Longrightarrow> allRefs P bones'"
proof (induction cs arbitrary: bones st)
  case Nil
  then show ?case by simp
next
  case (Cons c cs)
  from Cons.prems(1) obtain b1 st1 where
    1: "calculateD_iAndTranslate_o n bones st c (Some D) = Some (Inr (b1, st1))"
    and 2: "calculateChildren_o n b1 st1 cs D = Some (Inr (bones', st'))"
    by (auto simp: bindR_returns)
  from Cons.IH [OF 2 assms [OF 1 Cons.prems(2,3)]
      above_prefix [OF Cons.prems(3) calculateD_iAndTranslate_o_prefix [OF 1]]]
  show ?case .
qed

lemma calculateD_iAndTranslate_o_refs:
  "calculateD_iAndTranslate_o n bones st b Dp = Some (Inr (bones', st')) \<Longrightarrow>
     allRefs P bones \<Longrightarrow> \<forall>a. length st \<le> a \<longrightarrow> P a \<Longrightarrow> allRefs P bones'"
proof (induction n arbitrary: bones st b Dp bones' st')
  case 0
  then show ?case by simp
next
  case (Suc n)
  from Suc.prems(1) obtain boneInstance :: boneObj and D_i b1 st1 where
    ch: "calculateChildren_o n bones st (o_children boneInstance) D_i = Some (Inr (b1, st1))"
    and r: "setPosition_o D_i (nat b) b1 st1 = (bones', st')"
    by (auto simp: bindR_returns split: option.splits)
  from setPosition_o_refs [OF r calculateChildren_o_refs [OF Suc.IH ch Suc.prems(2,3)]
      above_prefix [OF Suc.prems(3) calculateChildren_o_prefix [OF calculateD_iAndTranslate_o_prefix ch]]]
  show ?case .
qed

lemma updateMeshChildren_o_refs:
  assumes "\<And>bones st b Dp rp bones' st'.
      updateMesh_o n bones st b Dp rp = Some (Inr (bones', st')) \<Longrightarrow>
      allRefs P bones \<Longrightarrow> \<forall>a. length st \<le> a \<longrightarrow> P a \<Longrightarrow> allRefs P bones'"
  shows "updateMeshChildren_o n bones st cs D r = Some (Inr (bones', st')) \<Longrightarrow>
      allRefs P bones \<Longrightarrow> \<forall>a. length st \<le> a \<longrightarrow> P a \<Longrightarrow> allRefs P bones'"
proof (induction cs arbitrary: bones st)
  case Nil
  then show ?case by simp
next
  case (Cons c cs)
  from Cons.prems(1) obtain b1 st1 where
    1: "updateMesh_o n bones st c (Some D) (Some r) = Some (Inr (b1, st1))"
    and 2: "updateMeshChildren_o n b1 st1 cs D r = Some (Inr (bones', st'))"
    by (auto simp: bindR_returns)
  from Cons.IH [OF 2 assms [OF 1 Cons.prems(2,3)]
      above_prefix [OF Cons.prems(3) updateMesh_o_prefix [OF 1]]]
  show ?case .
qed

lemma updateMesh_o_refs:
  "updateMesh_o n bones st b Dp rp = Some (Inr (bones', st')) \<Longrightarrow>
     allRefs P bones \<Longrightarrow> \<forall>a. length st \<le> a \<longrightarrow> P a \<Longrightarrow> allRefs P bones'"
proof (induction n arbitrary: bones st b Dp rp bones' st')
  case 0
  then show ?case by simp
next
  case (Suc n)
  from Suc.prems(1) obtain boneInstance :: boneObj and D_i rotation_i b1 st1 where
    ch: "updateMeshChildren_o n bones st (o_children boneInstance) D_i rotation_i
          = Some (Inr (b1, st1))"
    and r: "setPose_o D_i rotation_i (nat b) b1 st1 = (bones', st')"
    by (auto simp: bindR_returns split: option.splits)
  from setPose_o_refs [OF r updateMeshChildren_o_refs [OF Suc.IH ch Suc.prems(2,3)]
      above_prefix [OF Suc.prems(3) updateMeshChildren_o_prefix [OF updateMesh_o_prefix ch]]]
  show ?case .
qed

lemma interpolate_refs:
  "interpolate sl k1 k2 t is bones st = Inr (bones', st') \<Longrightarrow>
     allRefs P bones \<Longrightarrow> \<forall>a. length st \<le> a \<longrightarrow> P a \<Longrightarrow> allRefs P bones'"
proof (induction "is" arbitrary: bones st)
  case Nil
  then show ?case by simp
next
  case (Cons i "is")
  from Cons.prems(1) obtain a b where
    ab: "arrayAt k1 (int i) = Some a" "arrayAt k2 (int i) = Some b"
    by (auto split: option.splits)
  define st1 where "st1 = st @ [QuatObj (sl (quatAt st (o_rotation a)) (quatAt st (o_rotation b)) t)]"
  define st2 where "st2 = st1 @ [QuatObj (sl (quatAt st1 (o_R_i a)) (quatAt st1 (o_R_i b)) t)]"
  from Cons.prems(1) ab have 1:
    "interpolate sl k1 k2 t is (bones[i := (\<lambda>x. x\<lparr>o_rotation := length st, o_R_i := length st1\<rparr>) (bones ! i)]) st2
       = Inr (bones', st')"
    by (simp add: alloc_def Let_def st1_def st2_def)
  have l: "length st \<le> length st1" by (simp add: st1_def)
  have 2: "allRefs P (bones[i := (\<lambda>x. x\<lparr>o_rotation := length st, o_R_i := length st1\<rparr>) (bones ! i)])"
    by (rule allRefs_update_fields [OF Cons.prems(2)]) (use l Cons.prems(3) in \<open>simp add: refs_def\<close>)
  have 3: "\<forall>a. length st2 \<le> a \<longrightarrow> P a"
    using Cons.prems(3) by (simp add: st1_def st2_def)
  from Cons.IH [OF 1 2 3] show ?case .
qed

lemma recomputeRoots_refs:
  "recomputeRoots fuel is bones st = Some (Inr (bones', st')) \<Longrightarrow>
     allRefs P bones \<Longrightarrow> \<forall>a. length st \<le> a \<longrightarrow> P a \<Longrightarrow> allRefs P bones'"
proof (induction "is" arbitrary: bones st)
  case Nil
  then show ?case by simp
next
  case (Cons i "is")
  show ?case
  proof (cases "o_parent (bones ! i) = -1")
    case True
    with Cons.prems(1) obtain b1 st1 where
      1: "calculateD_iAndTranslate_o fuel bones st (int i) None = Some (Inr (b1, st1))"
      and 2: "recomputeRoots fuel is b1 st1 = Some (Inr (bones', st'))"
      by (auto simp: bindR_returns)
    from Cons.IH [OF 2 calculateD_iAndTranslate_o_refs [OF 1 Cons.prems(2,3)]
        above_prefix [OF Cons.prems(3) calculateD_iAndTranslate_o_prefix [OF 1]]]
    show ?thesis .
  next
    case False
    with Cons.prems Cons.IH show ?thesis by simp
  qed
qed

lemma playbackTick_refs:
  assumes a: "playbackTick fuel sl k1 k2 t bones st = Some (Inr (bones', st'))"
    and "allRefs P bones" and "\<forall>a. length st \<le> a \<longrightarrow> P a"
  shows "allRefs P bones'"
proof -
  from a obtain b1 st1 where 1: "interpolate sl k1 k2 t [0..<length bones] bones st = Inr (b1, st1)"
    and 2: "recomputeRoots fuel [0..<length b1] b1 st1 = Some (Inr (bones', st'))"
    by (auto simp: playbackTick_def split: sum.splits)
  from recomputeRoots_refs [OF 2 interpolate_refs [OF 1 assms(2,3)]
      above_prefix [OF assms(3) interpolate_prefix [OF 1]]]
  show ?thesis .
qed

lemma act_refs:
  assumes r: "act fuel sl a bones st = Some (Inr (bones', st'))"
    and "allRefs P bones" and "\<forall>a. length st \<le> a \<longrightarrow> P a"
  shows "allRefs P bones'"
proof (cases a)
  case (Rotate i axis angle)
  with r obtain b where b: "arrayAt bones (int i) = Some b"
    and b': "bones' = bones[i := b\<lparr>o_R_i := length st\<rparr>]"
    by (auto simp: act_def rotateBone_o_def alloc_def Let_def split: option.splits)
  from b have "b = bones ! i" by (auto simp: arrayAt_def split: if_splits)
  hence b'': "bones' = bones[i := (\<lambda>x. x\<lparr>o_R_i := length st\<rparr>) (bones ! i)]" using b' by simp
  show ?thesis unfolding b''
    by (rule allRefs_update_fields [OF assms(2)]) (simp add: refs_def assms(3))
next
  case (Update b)
  with r show ?thesis using updateMesh_o_refs [OF _ assms(2,3)] by (simp add: act_def)
next
  case (Playback k1 k2 t)
  with r show ?thesis using playbackTick_refs [OF _ assms(2,3)] by (simp add: act_def)
next
  case Capture
  with r assms(2) show ?thesis by (auto simp: act_def)
qed

lemma acts_refs:
  "acts fuel sl as bones st = Some (Inr (bones', st')) \<Longrightarrow>
     allRefs P bones \<Longrightarrow> \<forall>a. length st \<le> a \<longrightarrow> P a \<Longrightarrow> allRefs P bones'"
proof (induction as arbitrary: bones st)
  case Nil
  then show ?case by simp
next
  case (Cons a as)
  from Cons.prems(1) obtain b1 st1 where 1: "act fuel sl a bones st = Some (Inr (b1, st1))"
    and 2: "acts fuel sl as b1 st1 = Some (Inr (bones', st'))"
    by (auto simp: bindR_returns)
  from Cons.IH [OF 2 act_refs [OF 1 Cons.prems(2,3)]
      above_prefix [OF Cons.prems(3) act_prefix [OF 1]]]
  show ?case .
qed

lemma validRefs_allRefs:
  assumes "\<forall>x\<in>set bones. validRefs st x"
  shows "allRefs (\<lambda>a. a \<notin> set [length st..<n]) bones"
  using assms by (fastforce simp: allRefs_def validRefs_def list_all_iff)

text \<open>
  A keyframe captured from a live skeleton holds, for every bone, the values of all fields at
  capture (with \<open>isHighlight\<close> false), and every later run of \<open>rotateBone\<close>, \<open>updateMesh\<close>,
  playback ticks and further captures on the live skeleton leaves every field of every bone
  of the keyframe as it was: these operations store new objects in the live bones and write
  into no existing one. The keyframe's \<open>position\<close>, \<open>endpoint\<close>, \<open>rotation\<close>,
  \<open>initPosition\<close> and \<open>initEndpoint\<close> are objects of their own, allocated by the capture,
  that no bone of the live skeleton holds, then or later.
\<close>

lemma keyframe_values_kept:
  assumes "\<forall>x\<in>set bones. validRefs st x" and "KeyFrame bones st = (kf, st1)"
    and "acts fuel slerpShort as bones st1 = Some (Inr (bones', st2))"
  shows "map (view st1) kf = map (\<lambda>x. (view st x)\<lparr>isHighlight := False\<rparr>) bones \<and>
         map (view st2) kf = map (view st1) kf \<and>
         concat (map copied kf) = [length st..<length st1] \<and>
         allRefs (\<lambda>a. a \<notin> set [length st..<length st1]) bones \<and>
         allRefs (\<lambda>a. a \<notin> set [length st..<length st1]) bones'"
proof -
  from KeyFrame_view [OF assms(1,2)]
  have v: "\<forall>k\<in>set kf. validRefs st1 k" and rest:
    "map (view st1) kf = map (\<lambda>x. (view st x)\<lparr>isHighlight := False\<rparr>) bones"
    by simp_all
  have "prefix st1 st2" using acts_prefix [OF assms(3)] .
  with v have 1: "map (view st2) kf = map (view st1) kf" by (simp add: view_prefix)
  have 2: "concat (map copied kf) = [length st..<length st1]"
    by (rule KeyFrame_copied [OF assms(1,2)])
  have 3: "allRefs (\<lambda>a. a \<notin> set [length st..<length st1]) bones"
    by (rule validRefs_allRefs [OF assms(1)])
  have "\<forall>a. length st1 \<le> a \<longrightarrow> a \<notin> set [length st..<length st1]" by simp
  from acts_refs [OF assms(3) 3 this]
  have 4: "allRefs (\<lambda>a. a \<notin> set [length st..<length st1]) bones'" .
  from rest 1 2 3 4 show ?thesis by blast
qed

lemma newBones_loaders2:
  "newBones_o loaders2 [] =
     ([\<lparr>o_parent = -1, o_children = [1], o_position = 0, o_endpoint = 1, o_rotation = 2,
        o_isHighlight = False, o_T_ij = 5, o_R_i = 6, o_initPosition = 3, o_initEndpoint = 4\<rparr>,
       \<lparr>o_parent = 0, o_children = [], o_position = 7, o_endpoint = 8, o_rotation = 9,
        o_isHighlight = False, o_T_ij = 12, o_R_i = 13, o_initPosition = 10, o_initEndpoint = 11\<rparr>],
      [VecObj (Vec3 1 0 0), VecObj (Vec3 1 1 0), QuatObj setIdentityQ, VecObj (Vec3 1 0 0), VecObj (Vec3 1 1 0),
       MatObj setIdentity, QuatObj setIdentityQ,
       VecObj (Vec3 1 1 0), VecObj (Vec3 1 2 0), QuatObj setIdentityQ, VecObj (Vec3 1 1 0), VecObj (Vec3 1 2 0),
       MatObj setIdentity, QuatObj setIdentityQ])"
  by (simp add: loaders2_def newBone_o_def Let_def)

lemma upt2: "[0..<2] = [0, 1]"
  by (simp add: upt_rec)

lemma newMesh_old_loaders2: "newMesh_old loaders2 = Inr mesh2_old"
  unfolding newMesh_old_def newBones_loaders2 mesh2_old_def
  by (simp add: upt2 initT_ij_old_def Let_def arrayAt_def vecAt_def matAt_def translate_def
      setIdentity_def difference_def)

section \<open>Bind pose\<close>

text \<open>Later revision: the pass of the constructor leaves the bind pose as the loader gave it,
  and so does every recompute.\<close>

lemma map_update_same: "(map f xs)[i := f (xs ! i)] = map f xs"
  by (metis list_update_id map_update)

lemma initT_ij_bind:
  "initT_ij bones i = Inr bs \<Longrightarrow>
     map initPosition bs = map initPosition bones \<and> map initEndpoint bs = map initEndpoint bones"
  by (auto simp: initT_ij_def Let_def map_update map_update_same split: if_splits option.splits)

lemma foldE_initT_ij_bind:
  "foldE initT_ij is bones = Inr bs \<Longrightarrow>
     map initPosition bs = map initPosition bones \<and> map initEndpoint bs = map initEndpoint bones"
proof (induction "is" arbitrary: bones)
  case Nil
  then show ?case by simp
next
  case (Cons i "is")
  from Cons.prems obtain b1 where 1: "initT_ij bones i = Inr b1" and 2: "foldE initT_ij is b1 = Inr bs"
    by (auto split: sum.splits)
  from initT_ij_bind [OF 1] Cons.IH [OF 2] show ?case by simp
qed

lemma newMesh_bind:
  assumes "newMesh loaders = Inr bones"
  shows "map initPosition bones = map l_position loaders"
    and "map initEndpoint bones = map l_endpoint loaders"
  using foldE_initT_ij_bind [OF assms [unfolded newMesh_def]]
  by (simp_all add: newBone_def o_def)

lemma static_bind:
  assumes "map static bs = map static bones"
  shows "map initPosition bs = map initPosition bones \<and> map initEndpoint bs = map initEndpoint bones"
proof -
  have 1: "initPosition = initPosition \<circ> static" "initEndpoint = initEndpoint \<circ> static"
    by (rule ext, simp add: static_def)+
  have "map initPosition bs = map initPosition (map static bs)"
    "map initPosition bones = map initPosition (map static bones)"
    "map initEndpoint bs = map initEndpoint (map static bs)"
    "map initEndpoint bones = map initEndpoint (map static bones)"
    using 1 by (metis map_map)+
  with assms show ?thesis by simp
qed

text \<open>
  C8, at a failing input, on the earlier revision's \<open>Mesh\<close> constructor: a root at
  \<open>(1,0,0)\<close> and a child at \<open>(1,1,0)\<close>. After the pass that sets \<open>T_ij\<close>, the child's
  \<open>initPosition\<close> is \<open>(0,1,0)\<close>, its offset from the parent, not the loader's \<open>(1,1,0)\<close>.
\<close>

theorem mesh_constructor_overwrites_initPosition:
  "newMesh_old loaders2 = Inr mesh2_old \<and>
   initPosition (view (snd mesh2_old) (fst mesh2_old ! 1)) = Vec3 0 1 0 \<and>
   l_position (loaders2 ! 1) = Vec3 1 1 0"
  by (simp add: newMesh_old_loaders2) (simp add: mesh2_old_def loaders2_def view_def vecAt_def)

section \<open>A captured keyframe under rotation and recompute\<close>

lemma valid_bone1: "validRefs store1 bone1"
  by (simp add: validRefs_def refs_def bone1_def store1_def)

lemma KeyFrame_bone1: "KeyFrame [bone1] store1 = ([key1], store2)"
proof -
  have l: "length store1 = 7" by (simp add: store1_def)
  have v: "vecAt store1 0 = Vec3 1 0 0" "vecAt store1 (Suc 0) = Vec3 1 1 0"
    "quatAt store1 2 = setIdentityQ"
    "vecAt store1 3 = Vec3 1 0 0" "vecAt store1 4 = Vec3 1 1 0"
    by (simp_all add: vecAt_def quatAt_def store1_def)
  show ?thesis
    by (simp add: copyBone_eq [OF valid_bone1] l key1_def store2_def)
       (simp add: bone1_def v)
qed

lemma turn_half: "fromAxisAngle (Vec3 0 0 1) pi = Quat 0 0 1 0"
  by (simp add: fromAxisAngle_def Let_def)

lemma act_Rotate1:
  "act fuel sl (Rotate 0 (Vec3 0 0 1) pi) [bone1] store2 = Some (Inr ([turned1], store3))"
proof -
  have l: "length store2 = 12" by (simp add: store2_def store1_def)
  have q: "quatAt store2 (o_R_i bone1) = setIdentityQ"
    by (simp add: quatAt_def store2_def store1_def bone1_def)
  show ?thesis
    by (simp add: act_def arrayAt_def rotateBone_o_def alloc_def Let_def q turn_half l
        turned1_def store3_def productQ_def setIdentityQ_def)
qed

lemma toMat4_half: "toMat4 (Quat 0 0 1 0) = Mat4 (-1, 0, 0, 0) (0, -1, 0, 0) (0, 0, 1, 0) (0, 0, 0, 1)"
  by (simp add: toMat4_def Let_def)

lemma view_turned1:
  "view store3 turned1 =
     \<lparr>parent = -1, children = [], position = Vec3 1 0 0, endpoint = Vec3 1 1 0,
      rotation = setIdentityQ, isHighlight = False,
      T_ij = Mat4 (1, 0, 0, 0) (0, 1, 0, 0) (0, 0, 1, 0) (1, 0, 0, 1), R_i = Quat 0 0 1 0,
      initPosition = Vec3 1 0 0, initEndpoint = Vec3 1 1 0\<rparr>"
  by (simp add: view_def turned1_def bone1_def store3_def store2_def store1_def vecAt_def
      quatAt_def matAt_def)

lemma act_Update1:
  "act 2 sl (Update 0) [turned1] store3 = Some (Inr ([posed1], store4))"
proof -
  have l: "length store3 = 13" by (simp add: store3_def store2_def store1_def)
  have at: "arrayAt [turned1] 0 = Some turned1" by (simp add: arrayAt_def)
  have D: "getD_i (Suc (Suc 0)) [view store3 turned1] 0
      = Some (Inr (Mat4 (-1, 0, 0, 0) (0, -1, 0, 0) (0, 0, 1, 0) (1, 0, 0, 1)))"
    by (simp add: view_turned1 arrayAt_def toMat4_half product_def multiplyVec4_def)
  have R: "getR_i (Suc (Suc 0)) [view store3 turned1] 0 = Some (Inr (Quat 0 0 1 0))"
    by (simp add: view_turned1 arrayAt_def)
  have br: "updateBranch (Suc (Suc 0)) [view store3 turned1] 0 (view store3 turned1) None None
      = Some (Inr (Mat4 (-1, 0, 0, 0) (0, -1, 0, 0) (0, 0, 1, 0) (1, 0, 0, 1), Quat 0 0 1 0))"
    unfolding updateBranch_def using D R by simp
  have ch: "o_children turned1 = []" by (simp add: turned1_def bone1_def)
  have ie: "vecAt (store3 @ zs) (o_initEndpoint bone1) = Vec3 1 1 0"
    "vecAt (store3 @ zs) (o_initPosition bone1) = Vec3 1 0 0" for zs
    by (simp_all add: vecAt_def bone1_def store3_def store2_def store1_def)
  have pose: "setPose_o (Mat4 (-1, 0, 0, 0) (0, -1, 0, 0) (0, 0, 1, 0) (1, 0, 0, 1)) (Quat 0 0 1 0)
      0 [turned1] store3 = ([posed1], store4)"
    by (simp add: setPose_o_def setPosition_o_def setRotation_o_def alloc_def Let_def ie l
        multiplyPt3_def difference_def posed1_def turned1_def store4_def)
  have "updateMesh_o (Suc (Suc 0)) [turned1] store3 0 None None = Some (Inr ([posed1], store4))"
    by (simp add: at br ch pose del: getD_i.simps getR_i.simps)
  thus ?thesis by (simp add: act_def numeral_2_eq_2)
qed

lemma acts_rotate_update:
  "acts 2 sl [Rotate 0 (Vec3 0 0 1) pi, Update 0] [bone1] store2 = Some (Inr ([posed1], store4))"
  by (simp add: act_Rotate1 act_Update1)

lemma keyframe_values_kept_example:
  "list_all (validRefs store1) [bone1] \<and>
   KeyFrame [bone1] store1 = ([key1], store2) \<and>
   acts 2 (\<lambda>a b t. a) [Rotate 0 (Vec3 0 0 1) pi, Update 0] [bone1] store2
     = Some (Inr ([posed1], store4)) \<and>
   map (view store2) [key1] = map (\<lambda>x. (view store1 x)\<lparr>isHighlight := False\<rparr>) [bone1] \<and>
   map (view store4) [key1] = map (view store2) [key1] \<and>
   concat (map copied [key1]) = [7, 8, 9, 10, 11] \<and>
   refs bone1 = [0, 1, 2, 5, 6, 3, 4] \<and>
   refs posed1 = [13, 14, 15, 5, 12, 3, 4] \<and>
   R_i (view store4 posed1) = Quat 0 0 1 0 \<and> R_i (view store4 key1) = Quat 0 0 0 1"
proof -
  have v: "\<forall>x\<in>set [bone1]. validRefs store1 x" by (simp add: valid_bone1)
  have r: "R_i (view store4 posed1) = Quat 0 0 1 0" "R_i (view store4 key1) = Quat 0 0 0 1"
    by (simp_all add: view_def posed1_def key1_def bone1_def store4_def store3_def store2_def
        store1_def quatAt_def setIdentityQ_def)
  have c: "concat (map copied [key1]) = [7, 8, 9, 10, 11]" by (simp add: copied_def key1_def)
  have f: "refs bone1 = [0, 1, 2, 5, 6, 3, 4]" "refs posed1 = [13, 14, 15, 5, 12, 3, 4]"
    by (simp_all add: refs_def posed1_def bone1_def)
  from keyframe_values_kept [OF v KeyFrame_bone1 acts_rotate_update [of "\<lambda>a b t. a"]]
    valid_bone1 KeyFrame_bone1 acts_rotate_update [of "\<lambda>a b t. a"] r c f
  show ?thesis by simp
qed

text \<open>
  C1, at a failing input: the capture of a one-bone skeleton. The \<open>Bone\<close> constructor copies
  five fields of the bone it is given and takes \<open>R_i\<close> and \<open>T_ij\<close> as they are, so the
  keyframe's bone holds the very \<open>R_i\<close> and \<open>T_ij\<close> objects of the live bone, and a write
  into the live bone's \<open>R_i\<close> object shows in the keyframe.
\<close>

theorem keyframe_shares_R_i_and_T_ij:
  "KeyFrame [bone1] store1 = ([key1], store2) \<and>
   o_R_i key1 = o_R_i bone1 \<and> o_T_ij key1 = o_T_ij bone1 \<and>
   R_i (view store2 key1) = Quat 0 0 0 1 \<and>
   R_i (view (store2[o_R_i bone1 := QuatObj (Quat 0 0 1 0)]) key1) = Quat 0 0 1 0"
proof -
  have 1: "o_R_i key1 = o_R_i bone1" "o_T_ij key1 = o_T_ij bone1"
    by (simp_all add: key1_def bone1_def)
  have 2: "R_i (view store2 key1) = Quat 0 0 0 1"
    "R_i (view (store2[o_R_i bone1 := QuatObj (Quat 0 0 1 0)]) key1) = Quat 0 0 1 0"
    by (simp_all add: key1_def bone1_def view_def quatAt_def store2_def store1_def
        setIdentityQ_def)
  from KeyFrame_bone1 1 2 show ?thesis by blast
qed

text \<open>
  Later revision: \<open>rotateBone(axis, angle)\<close> sets the bone's local rotation to the old one
  composed on the right with \<open>Quat.fromAxisAngle(axis, angle)\<close>; every other field of the
  bone, and every field of every other bone object (other live bones, descendants, bones of
  keyframes), reads as before: nothing is recomputed.
\<close>

theorem rotateBone_composes_on_the_right:
  assumes "validRefs st b" and "\<forall>x\<in>set others. validRefs st x"
    and "rotateBone_o axis angle b st = (b', st')"
  shows "view st' b' = (view st b)\<lparr>R_i := productQ (R_i (view st b)) (fromAxisAngle axis angle)\<rparr> \<and>
         view st' b' = rotateBone axis angle (view st b) \<and>
         map (view st') others = map (view st) others"
proof -
  let ?q = "productQ (quatAt st (o_R_i b)) (fromAxisAngle axis angle)"
  from assms(3) have b': "b' = b\<lparr>o_R_i := length st\<rparr>" and st': "st' = st @ [QuatObj ?q]"
    by (simp_all add: rotateBone_o_def alloc_def Let_def)
  have p: "prefix st st'" by (simp add: st')
  from assms(1) have v: "o_position b < length st" "o_endpoint b < length st"
    "o_rotation b < length st" "o_T_ij b < length st" "o_initPosition b < length st"
    "o_initEndpoint b < length st"
    by (simp_all add: validRefs_def refs_def)
  have new: "quatAt st' (length st) = ?q" by (simp add: st' quatAt_def)
  have 1: "view st' b' = (view st b)\<lparr>R_i := productQ (R_i (view st b)) (fromAxisAngle axis angle)\<rparr>"
    unfolding view_def b'
    by (simp add: new at_prefix [OF p v(1)] at_prefix [OF p v(2)] at_prefix [OF p v(3)]
        at_prefix [OF p v(4)] at_prefix [OF p v(5)] at_prefix [OF p v(6)])
  have 2: "map (view st') others = map (view st) others"
    using assms(2) by (simp add: view_prefix [OF _ p])
  from 1 2 show ?thesis by (simp add: rotateBone_def)
qed

theorem rotateBone_composes_on_the_right_witness:
  "validRefs store2 bone1 \<and> list_all (validRefs store2) [key1] \<and>
   rotateBone_o (Vec3 0 0 1) pi bone1 store2 = (turned1, store3) \<and>
   view store3 turned1 = (view store2 bone1)\<lparr>R_i := Quat 0 0 1 0\<rparr> \<and>
   view store3 turned1 = rotateBone (Vec3 0 0 1) pi (view store2 bone1) \<and>
   map (view store3) [key1] = map (view store2) [key1]"
proof -
  have l: "length store2 = 12" by (simp add: store2_def store1_def)
  have v1: "validRefs store2 bone1" by (simp add: validRefs_def refs_def bone1_def l)
  have v2: "\<forall>x\<in>set [key1]. validRefs store2 x" by (simp add: validRefs_def refs_def key1_def l)
  have q: "quatAt store2 (o_R_i bone1) = setIdentityQ"
    by (simp add: quatAt_def store2_def store1_def bone1_def)
  have r: "rotateBone_o (Vec3 0 0 1) pi bone1 store2 = (turned1, store3)"
    by (simp add: rotateBone_o_def alloc_def Let_def q turn_half l turned1_def store3_def
        productQ_def setIdentityQ_def)
  have R: "productQ (R_i (view store2 bone1)) (fromAxisAngle (Vec3 0 0 1) pi) = Quat 0 0 1 0"
    by (simp add: view_def q turn_half productQ_def setIdentityQ_def)
  from rotateBone_composes_on_the_right [OF v1 v2 r] v1 v2 r show ?thesis
    by (simp add: R rotateBone_def)
qed

text \<open>
  The earlier revision's \<open>rotateBone\<close> composes in the same order, but into the object that
  \<open>R_i\<close> already holds.
\<close>

lemma rotateBone_old_R_i:
  "o_R_i b < length st \<Longrightarrow>
   R_i (view (rotateBone_old axis angle b st) b)
     = productQ (R_i (view st b)) (fromAxisAngle axis angle)"
  by (simp add: rotateBone_old_def view_def quatAt_def)

text \<open>
  It writes into no other object, so a field changes with it exactly when it holds the object
  of \<open>R_i\<close>. The \<open>updateMesh\<close> of that revision, called without a parent transform,
  stores the object of \<open>R_i\<close> in \<open>rotation\<close> (lines 179 and 192); the later one stores a
  copy.
\<close>

lemma rotateBone_old_frame:
  "a \<noteq> o_R_i b \<Longrightarrow> rotateBone_old axis angle b st ! a = st ! a"
  "length (rotateBone_old axis angle b st) = length st"
  by (simp_all add: rotateBone_old_def)

lemma rotateBone_old_alias:
  "o_R_i b < length st \<Longrightarrow> o_rotation b = o_R_i b \<Longrightarrow>
   rotation (view (rotateBone_old axis angle b st) b)
     = productQ (rotation (view st b)) (fromAxisAngle axis angle)"
  by (simp add: rotateBone_old_def view_def quatAt_def)

text \<open>The earlier revision's constructor and \<open>updateMesh\<close> on a one-bone skeleton.\<close>

lemma newMesh_old_loaders1: "newMesh_old loaders1 = Inr ([bone1], store1)"
  by (simp add: newMesh_old_def loaders1_def newBone_o_def Let_def initT_ij_old_def bone1_def
      store1_def vecAt_def matAt_def translate_def setIdentity_def)

lemma view_bone1:
  "view store1 bone1 =
     \<lparr>parent = -1, children = [], position = Vec3 1 0 0, endpoint = Vec3 1 1 0,
      rotation = setIdentityQ, isHighlight = False,
      T_ij = Mat4 (1, 0, 0, 0) (0, 1, 0, 0) (0, 0, 1, 0) (1, 0, 0, 1), R_i = setIdentityQ,
      initPosition = Vec3 1 0 0, initEndpoint = Vec3 1 1 0\<rparr>"
  by (simp add: view_def bone1_def store1_def vecAt_def quatAt_def matAt_def)

lemma toMat4_identity: "toMat4 setIdentityQ = setIdentity"
  by (simp add: toMat4_def setIdentityQ_def setIdentity_def)

lemma updateMesh_old_bone1:
  "updateMesh_old 2 [bone1] store1 0 None None = Some (Inr ([aliased1], store1u))"
proof -
  have at: "arrayAt [bone1] 0 = Some bone1" by (simp add: arrayAt_def)
  have D: "getD_i_old (Suc (Suc 0)) [view store1 bone1] 0
      = Some (Inr (Mat4 (1, 0, 0, 0) (0, 1, 0, 0) (0, 0, 1, 0) (1, 0, 0, 1)))"
    by (simp add: view_bone1 arrayAt_def toMat4_identity translate_def setIdentity_def
        product_def multiplyVec4_def)
  have br: "updateBranch_old (Suc (Suc 0)) [bone1] store1 0 bone1 None None
      = Some (Inr (Mat4 (1, 0, 0, 0) (0, 1, 0, 0) (0, 0, 1, 0) (1, 0, 0, 1), 6, store1))"
    unfolding updateBranch_old_def using D by (simp add: bone1_def)
  have ie: "vecAt (store1 @ zs) (o_initEndpoint bone1) = Vec3 1 1 0"
    "vecAt (store1 @ zs) (o_initPosition bone1) = Vec3 1 0 0" for zs
    by (simp_all add: vecAt_def bone1_def store1_def)
  have l: "length store1 = 7" by (simp add: store1_def)
  have pos: "setPosition_o (Mat4 (1, 0, 0, 0) (0, 1, 0, 0) (0, 0, 1, 0) (1, 0, 0, 1)) 0 [bone1] store1
      = ([bone1\<lparr>o_position := 7, o_endpoint := 8\<rparr>], store1u)"
    by (simp add: setPosition_o_def alloc_def Let_def ie l multiplyPt3_def difference_def
        store1u_def)
  have ch: "o_children bone1 = []" by (simp add: bone1_def)
  have "updateMesh_old (Suc (Suc 0)) [bone1] store1 0 None None = Some (Inr ([aliased1], store1u))"
    by (simp add: at br pos ch aliased1_def del: getD_i_old.simps)
  thus ?thesis by (simp add: numeral_2_eq_2)
qed

text \<open>
  C5, at a failing input, on the earlier revision: a mesh of one root bone, after
  \<open>updateMesh(0, null, null)\<close>. \<open>rotation\<close> and \<open>R_i\<close> of the bone are one object, and
  \<open>rotateBone\<close> about \<open>z\<close> by \<open>pi\<close>, which multiplies into that object, changes
  \<open>rotation\<close> from the identity to \<open>(0,0,1,0)\<close> along with \<open>R_i\<close>.
\<close>

theorem rotateBone_old_changes_rotation:
  "newMesh_old loaders1 = Inr ([bone1], store1) \<and>
   updateMesh_old 2 [bone1] store1 0 None None = Some (Inr ([aliased1], store1u)) \<and>
   o_rotation aliased1 = o_R_i aliased1 \<and>
   rotation (view store1u aliased1) = Quat 0 0 0 1 \<and>
   R_i (view (rotateBone_old (Vec3 0 0 1) pi aliased1 store1u) aliased1) = Quat 0 0 1 0 \<and>
   rotation (view (rotateBone_old (Vec3 0 0 1) pi aliased1 store1u) aliased1) = Quat 0 0 1 0"
proof -
  have 1: "o_rotation aliased1 = o_R_i aliased1" by (simp add: aliased1_def bone1_def)
  have 2: "rotation (view store1u aliased1) = Quat 0 0 0 1"
    by (simp add: view_def aliased1_def bone1_def store1u_def store1_def quatAt_def
        setIdentityQ_def)
  have q: "quatAt store1u (o_R_i aliased1) = setIdentityQ"
    by (simp add: aliased1_def bone1_def store1u_def store1_def quatAt_def)
  have st: "rotateBone_old (Vec3 0 0 1) pi aliased1 store1u = store1u[6 := QuatObj (Quat 0 0 1 0)]"
    unfolding rotateBone_old_def q
    by (simp add: turn_half productQ_def setIdentityQ_def aliased1_def bone1_def)
  have 3: "R_i (view (rotateBone_old (Vec3 0 0 1) pi aliased1 store1u) aliased1) = Quat 0 0 1 0"
    "rotation (view (rotateBone_old (Vec3 0 0 1) pi aliased1 store1u) aliased1) = Quat 0 0 1 0"
    unfolding st
    by (simp_all add: view_def aliased1_def bone1_def store1u_def store1_def quatAt_def)
  from newMesh_old_loaders1 updateMesh_old_bone1 1 2 3 show ?thesis by blast
qed

section \<open>The bind pose of a new mesh\<close>

text \<open>
  The constructor of \<open>Mesh\<close> (later revision) leaves every bone in its bind pose: identity
  \<open>R_i\<close>, a translation for \<open>T_ij\<close>, \<open>position\<close> and \<open>endpoint\<close> at their bind values.
  So the bones of a new mesh are posed and have their bind-pose length.
\<close>

lemma pureTranslation_translate: "pureTranslation m \<Longrightarrow> pureTranslation (translate m v)"
  by (cases m rule: mat4_exhaust; cases v)
     (simp add: pureTranslation_def translate_def setIdentity_def)

lemma pureTranslation_setIdentity: "pureTranslation setIdentity"
  by (simp add: pureTranslation_def translate_def setIdentity_def)

lemma bindPosed_posed: "bindPosed b \<Longrightarrow> posed b \<and> lengthKept b"
  by (simp add: bindPosed_def posed_def lengthKept_def unitQ_def setIdentityQ_def)

lemma initT_ij_bindPosed:
  assumes "initT_ij bones i = Inr bs" and "\<forall>b\<in>set bones. bindPosed b"
  shows "\<forall>b\<in>set bs. bindPosed b"
proof -
  from assms(1) obtain v where bs: "bs = bones[i := (bones ! i)\<lparr>T_ij := translate (T_ij (bones ! i)) v\<rparr>]"
    by (auto simp: initT_ij_def Let_def split: if_splits option.splits)
  show ?thesis
  proof
    fix b assume "b \<in> set bs"
    hence "b = (bones ! i)\<lparr>T_ij := translate (T_ij (bones ! i)) v\<rparr> \<and> i < length bones
        \<or> b \<in> set bones"
      unfolding bs
      by (cases "i < length bones") (auto dest: set_update_subset_insert [THEN subsetD] simp: list_update_beyond)
    thus "bindPosed b"
    proof
      assume a: "b = (bones ! i)\<lparr>T_ij := translate (T_ij (bones ! i)) v\<rparr> \<and> i < length bones"
      hence "bindPosed (bones ! i)" using assms(2) by simp
      with a show ?thesis by (simp add: bindPosed_def pureTranslation_translate)
    next
      assume "b \<in> set bones"
      with assms(2) show ?thesis by simp
    qed
  qed
qed

lemma foldE_initT_ij_bindPosed:
  "foldE initT_ij is bones = Inr bs \<Longrightarrow> \<forall>b\<in>set bones. bindPosed b \<Longrightarrow> \<forall>b\<in>set bs. bindPosed b"
proof (induction "is" arbitrary: bones)
  case Nil
  then show ?case by simp
next
  case (Cons i "is")
  from Cons.prems(1) obtain b1 where 1: "initT_ij bones i = Inr b1" and 2: "foldE initT_ij is b1 = Inr bs"
    by (auto split: sum.splits)
  from Cons.IH [OF 2 initT_ij_bindPosed [OF 1 Cons.prems(2)]] show ?case .
qed

text \<open>The skeleton the \<open>Mesh\<close> constructor builds is in its bind pose.\<close>

lemma newMesh_bindPosed:
  assumes "newMesh loaders = Inr bones"
  shows "\<forall>b\<in>set bones. posed b \<and> lengthKept b"
proof -
  have "\<forall>b\<in>set (map newBone loaders). bindPosed b"
    by (simp add: bindPosed_def newBone_def pureTranslation_setIdentity)
  from foldE_initT_ij_bindPosed [OF assms [unfolded newMesh_def] this]
  show ?thesis by (simp add: bindPosed_posed)
qed

section \<open>The store and the values\<close>

lemma viewResult_simps [simp]:
  "viewResult None = None"
  "viewResult (Some (Inl e)) = Some (Inl e)"
  "viewResult (Some (Inr (bones, st))) = Some (Inr (map (view st) bones))"
  by (simp_all add: viewResult_def)

lemma viewResult_bindR:
  assumes "\<And>bones st. m = Some (Inr (bones, st)) \<Longrightarrow> viewResult (f (bones, st)) = g (map (view st) bones)"
  shows "viewResult (bindR m f) = bindR (viewResult m) g"
proof (cases m)
  case None
  then show ?thesis by (simp add: bindR_def)
next
  case (Some r)
  show ?thesis
  proof (cases r)
    case (Inl e)
    with Some show ?thesis by (simp add: bindR_def)
  next
    case (Inr p)
    obtain bones st where p: "p = (bones, st)" by (cases p)
    with Some Inr assms [of bones st] show ?thesis by simp
  qed
qed

lemma setPosition_o_eq:
  assumes "validRefs st (bones ! k)"
  shows "setPosition_o D k bones st =
     (bones[k := (bones ! k)\<lparr>o_position := length st, o_endpoint := length st + 1\<rparr>],
      st @ [VecObj (multiplyPt3 D (Vec3 0 0 0)),
            VecObj (multiplyPt3 D (difference (vecAt st (o_initEndpoint (bones ! k)))
                                              (vecAt st (o_initPosition (bones ! k)))))])"
proof -
  from assms have v: "o_initEndpoint (bones ! k) < length st" "o_initPosition (bones ! k) < length st"
    by (simp_all add: validRefs_def refs_def)
  have 1: "vecAt (st @ zs) (o_initEndpoint (bones ! k)) = vecAt st (o_initEndpoint (bones ! k))"
    "vecAt (st @ zs) (o_initPosition (bones ! k)) = vecAt st (o_initPosition (bones ! k))" for zs
    using v by (simp_all add: at_prefix)
  show ?thesis
    unfolding setPosition_o_def alloc_def Let_def prod.case 1 by simp
qed

lemma setPose_o_eq:
  assumes "validRefs st (bones ! k)" and "k < length bones"
  shows "setPose_o D r k bones st =
     (bones[k := (bones ! k)\<lparr>o_position := length st, o_endpoint := length st + 1,
                              o_rotation := length st + 2\<rparr>],
      st @ [VecObj (multiplyPt3 D (Vec3 0 0 0)),
            VecObj (multiplyPt3 D (difference (vecAt st (o_initEndpoint (bones ! k)))
                                              (vecAt st (o_initPosition (bones ! k))))),
            QuatObj r])"
  using assms(2)
  by (simp add: setPose_o_def setPosition_o_eq [OF assms(1)] setRotation_o_def alloc_def Let_def)

lemma view_new_position:
  assumes "validRefs st x"
  shows "view (st @ [VecObj p, VecObj e]) (x\<lparr>o_position := length st, o_endpoint := length st + 1\<rparr>)
     = (view st x)\<lparr>position := p, endpoint := e\<rparr>"
proof -
  have pr: "prefix st (st @ [VecObj p, VecObj e])" by simp
  from assms have v: "o_rotation x < length st" "o_T_ij x < length st" "o_R_i x < length st"
    "o_initPosition x < length st" "o_initEndpoint x < length st"
    by (simp_all add: validRefs_def refs_def)
  have n: "vecAt (st @ [VecObj p, VecObj e]) (length st) = p"
    "vecAt (st @ [VecObj p, VecObj e]) (Suc (length st)) = e"
    by (simp_all add: vecAt_def nth_append)
  show ?thesis
    unfolding view_def
    by (simp add: n at_prefix [OF pr v(1)] at_prefix [OF pr v(2)] at_prefix [OF pr v(3)]
        at_prefix [OF pr v(4)] at_prefix [OF pr v(5)])
qed

lemma view_new_pose:
  assumes "validRefs st x"
  shows "view (st @ [VecObj p, VecObj e, QuatObj r])
           (x\<lparr>o_position := length st, o_endpoint := length st + 1, o_rotation := length st + 2\<rparr>)
     = (view st x)\<lparr>position := p, endpoint := e, rotation := r\<rparr>"
proof -
  have pr: "prefix st (st @ [VecObj p, VecObj e, QuatObj r])" by simp
  from assms have v: "o_T_ij x < length st" "o_R_i x < length st"
    "o_initPosition x < length st" "o_initEndpoint x < length st"
    by (simp_all add: validRefs_def refs_def)
  have n: "vecAt (st @ [VecObj p, VecObj e, QuatObj r]) (length st) = p"
    "vecAt (st @ [VecObj p, VecObj e, QuatObj r]) (Suc (length st)) = e"
    "quatAt (st @ [VecObj p, VecObj e, QuatObj r]) (Suc (Suc (length st))) = r"
    by (simp_all add: vecAt_def quatAt_def nth_append)
  show ?thesis
    unfolding view_def
    by (simp add: n at_prefix [OF pr v(1)] at_prefix [OF pr v(2)] at_prefix [OF pr v(3)]
        at_prefix [OF pr v(4)])
qed

lemma validRefs_new:
  assumes "validRefs st x" and "prefix st st'" and "p < length st'" and "e < length st'"
    and "r < length st'"
  shows "validRefs st' (x\<lparr>o_position := p, o_endpoint := e, o_rotation := r\<rparr>)"
  using validRefs_prefix [OF assms(1,2)] assms(3-5) by (simp add: validRefs_def refs_def)

lemma map_view_update:
  assumes "\<forall>x\<in>set bones. validRefs st x" and "prefix st st'" and "k < length bones"
  shows "map (view st') (bones[k := y]) = (map (view st) bones)[k := view st' y]"
proof -
  have "map (view st') bones = map (view st) bones"
    using assms(1) view_prefix [OF _ assms(2)] by (induction bones) simp_all
  thus ?thesis by (simp only: map_update)
qed

text \<open>Setting the pose of a bone in the store is setting it in the view.\<close>

lemma setPose_o_view:
  assumes v: "\<forall>x\<in>set bones. validRefs st x" and k: "k < length bones"
    and s: "setPose_o D r k bones st = (bones', st')"
  shows "map (view st') bones'
       = (map (view st) bones)[k := (setPosition D (map (view st) bones ! k))\<lparr>rotation := r\<rparr>]"
    and "\<forall>x\<in>set bones'. validRefs st' x" and "length bones' = length bones"
proof -
  have vk: "validRefs st (bones ! k)" using v k by simp
  let ?p = "multiplyPt3 D (Vec3 0 0 0)"
  let ?e = "multiplyPt3 D (difference (vecAt st (o_initEndpoint (bones ! k)))
                                      (vecAt st (o_initPosition (bones ! k))))"
  let ?y = "(bones ! k)\<lparr>o_position := length st, o_endpoint := length st + 1,
                         o_rotation := length st + 2\<rparr>"
  from s have b': "bones' = bones[k := ?y]" and st': "st' = st @ [VecObj ?p, VecObj ?e, QuatObj r]"
    unfolding setPose_o_eq [OF vk k] by simp_all
  have pr: "prefix st st'" by (simp add: st')
  have vy: "view st' ?y = (view st (bones ! k))\<lparr>position := ?p, endpoint := ?e, rotation := r\<rparr>"
    unfolding st' by (rule view_new_pose [OF vk])
  have "map (view st') bones' = (map (view st) bones)[k := view st' ?y]"
    unfolding b' by (rule map_view_update [OF v pr k])
  also have "view st' ?y = (setPosition D (map (view st) bones ! k))\<lparr>rotation := r\<rparr>"
    unfolding vy using k by (simp add: setPosition_def view_def)
  finally show "map (view st') bones'
       = (map (view st) bones)[k := (setPosition D (map (view st) bones ! k))\<lparr>rotation := r\<rparr>]" .
  have "validRefs st' ?y"
    by (rule validRefs_new [OF vk pr]) (simp_all add: st')
  thus "\<forall>x\<in>set bones'. validRefs st' x"
    unfolding b' using v validRefs_prefix [OF _ pr]
    by (auto dest!: set_update_subset_insert [THEN subsetD])
  show "length bones' = length bones" by (simp add: b')
qed


lemma refines_simps:
  "refines bones None v \<longleftrightarrow> v = None"
  "refines bones (Some (Inl e)) v \<longleftrightarrow> v = Some (Inl e)"
  "refines bones (Some (Inr (bones', st'))) v \<longleftrightarrow>
     v = Some (Inr (map (view st') bones')) \<and> length bones' = length bones
     \<and> list_all (validRefs st') bones'"
  by (auto simp: refines_def)

lemma refines_bindR:
  assumes m: "refines bones m v"
    and f: "\<And>bones' st'. m = Some (Inr (bones', st')) \<Longrightarrow> length bones' = length bones \<Longrightarrow>
              list_all (validRefs st') bones' \<Longrightarrow>
              refines bones' (f (bones', st')) (g (map (view st') bones'))"
  shows "refines bones (bindR m f) (bindR v g)"
proof (cases m)
  case None
  with m show ?thesis by (simp add: refines_simps bindR_def)
next
  case (Some r)
  show ?thesis
  proof (cases r)
    case (Inl e)
    with Some m show ?thesis by (simp add: refines_simps bindR_def)
  next
    case (Inr p)
    obtain bones' st' where p: "p = (bones', st')" by (cases p)
    from m Some Inr p have v: "v = Some (Inr (map (view st') bones'))"
      and l: "length bones' = length bones" and g: "list_all (validRefs st') bones'"
      by (simp_all add: refines_simps)
    from f [OF _ l g] Some Inr p
    have "refines bones' (f (bones', st')) (g (map (view st') bones'))" by simp
    hence "refines bones (f (bones', st')) (g (map (view st') bones'))"
      using l by (auto simp: refines_def split: option.splits sum.splits)
    thus ?thesis using Some Inr p v by simp
  qed
qed

lemma setPose_o_refines:
  assumes v: "list_all (validRefs st) bones" and k: "k < length bones"
  shows "refines bones (Some (Inr (setPose_o D r k bones st)))
     (Some (Inr ((map (view st) bones)[k := (setPosition D (map (view st) bones ! k))\<lparr>rotation := r\<rparr>])))"
proof -
  obtain bones' st' where s: "setPose_o D r k bones st = (bones', st')"
    by (cases "setPose_o D r k bones st")
  from v have v': "\<forall>x\<in>set bones. validRefs st x" by (simp add: list_all_iff)
  from setPose_o_view [OF v' k s] show ?thesis
    unfolding s by (simp add: refines_simps list_all_iff)
qed

lemma updateMesh_o_refines:
  "list_all (validRefs st) bones \<Longrightarrow>
     refines bones (updateMesh_o n bones st b D_parent rot_parent)
       (updateMesh n (map (view st) bones) b D_parent rot_parent)"
  "list_all (validRefs st) bones \<Longrightarrow>
     refines bones (updateMeshChildren_o n bones st cs D_i rotation_i)
       (updateMeshChildren n (map (view st) bones) cs D_i rotation_i)"
proof (induction n bones st b D_parent rot_parent and n bones st cs D_i rotation_i
    rule: updateMesh_o_updateMeshChildren_o.induct)
  case (1 bones st b D_parent rot_parent)
  show ?case by (simp add: refines_simps)
next
  case (2 n bones st b D_parent rot_parent)
  show ?case
  proof (cases "arrayAt bones b")
    case None
    thus ?thesis by (simp add: refines_simps arrayAt_map)
  next
    case (Some boneInstance)
    hence k: "nat b < length bones" by (auto simp: arrayAt_def split: if_splits)
    show ?thesis
    proof (cases "updateBranch (Suc n) (map (view st) bones) b (view st boneInstance)
                    D_parent rot_parent")
      case None
      with Some show ?thesis by (simp add: refines_simps arrayAt_map bindR_def)
    next
      case (Some r)
      note ub = this
      show ?thesis
      proof (cases r)
        case (Inl e)
        with ub \<open>arrayAt bones b = Some boneInstance\<close> show ?thesis
          by (simp add: refines_simps arrayAt_map bindR_def)
      next
        case (Inr x)
        obtain D r' where x: "x = (D, r')" by (cases x)
        have ih: "refines bones (updateMeshChildren_o n bones st (o_children boneInstance) D r')
           (updateMeshChildren n (map (view st) bones) (o_children boneInstance) D r')"
          by (rule "2.IH" [OF \<open>arrayAt bones b = Some boneInstance\<close> "2.prems"])
        have ch: "children (view st boneInstance) = o_children boneInstance"
          by (simp add: view_def)
        have "refines bones
           (bindR (updateMeshChildren_o n bones st (o_children boneInstance) D r')
              (\<lambda>(bones', st'). Some (Inr (setPose_o D r' (nat b) bones' st'))))
           (bindR (updateMeshChildren n (map (view st) bones) (o_children boneInstance) D r')
              (\<lambda>bones'. Some (Inr (bones'[nat b := (setPosition D (bones' ! nat b))\<lparr>rotation := r'\<rparr>]))))"
        proof (rule refines_bindR [OF ih])
          fix bones' st'
          assume l: "length bones' = length bones" and g: "list_all (validRefs st') bones'"
          from k l have "nat b < length bones'" by simp
          from setPose_o_refines [OF g this]
          show "refines bones'
             (case (bones', st') of (bones', st') \<Rightarrow> Some (Inr (setPose_o D r' (nat b) bones' st')))
             (Some (Inr ((map (view st') bones')[nat b :=
                (setPosition D (map (view st') bones' ! nat b))\<lparr>rotation := r'\<rparr>])))"
            by simp
        qed
        thus ?thesis
          using ub Inr x \<open>arrayAt bones b = Some boneInstance\<close>
          by (simp add: arrayAt_map ch)
      qed
    qed
  qed
next
  case (3 n bones st D_i rotation_i)
  thus ?case by (simp add: refines_simps)
next
  case (4 n bones st c cs D_i rotation_i)
  have "refines bones
     (bindR (updateMesh_o n bones st c (Some D_i) (Some rotation_i))
        (\<lambda>(bones', st'). updateMeshChildren_o n bones' st' cs D_i rotation_i))
     (bindR (updateMesh n (map (view st) bones) c (Some D_i) (Some rotation_i))
        (\<lambda>bones'. updateMeshChildren n bones' cs D_i rotation_i))"
  proof (rule refines_bindR [OF "4.IH"(1) [OF "4.prems"]])
    fix bones' st'
    assume m: "updateMesh_o n bones st c (Some D_i) (Some rotation_i) = Some (Inr (bones', st'))"
      and g: "list_all (validRefs st') bones'"
    from "4.IH"(2) [OF g]
    show "refines bones'
       (case (bones', st') of (bones', st') \<Rightarrow> updateMeshChildren_o n bones' st' cs D_i rotation_i)
       (updateMeshChildren n (map (view st') bones') cs D_i rotation_i)"
      by simp
  qed
  thus ?case by simp
qed


lemma validRefs_new_position:
  assumes "validRefs st x" and "prefix st st'" and "p < length st'" and "e < length st'"
  shows "validRefs st' (x\<lparr>o_position := p, o_endpoint := e\<rparr>)"
  using validRefs_prefix [OF assms(1,2)] assms(3,4) by (simp add: validRefs_def refs_def)

lemma setPosition_o_refines:
  assumes v: "list_all (validRefs st) bones" and k: "k < length bones"
  shows "refines bones (Some (Inr (setPosition_o D k bones st)))
     (Some (Inr ((map (view st) bones)[k := setPosition D (map (view st) bones ! k)])))"
proof -
  from v have v': "\<forall>x\<in>set bones. validRefs st x" by (simp add: list_all_iff)
  have vk: "validRefs st (bones ! k)" using v' k by simp
  let ?p = "multiplyPt3 D (Vec3 0 0 0)"
  let ?e = "multiplyPt3 D (difference (vecAt st (o_initEndpoint (bones ! k)))
                                      (vecAt st (o_initPosition (bones ! k))))"
  let ?y = "(bones ! k)\<lparr>o_position := length st, o_endpoint := length st + 1\<rparr>"
  let ?st' = "st @ [VecObj ?p, VecObj ?e]"
  have s: "setPosition_o D k bones st = (bones[k := ?y], ?st')"
    by (rule setPosition_o_eq [OF vk])
  have pr: "prefix st ?st'" by simp
  have vy: "view ?st' ?y = (view st (bones ! k))\<lparr>position := ?p, endpoint := ?e\<rparr>"
    by (rule view_new_position [OF vk])
  have "map (view ?st') (bones[k := ?y]) = (map (view st) bones)[k := view ?st' ?y]"
    by (rule map_view_update [OF v' pr k])
  also have "view ?st' ?y = setPosition D (map (view st) bones ! k)"
    unfolding vy using k by (simp add: setPosition_def view_def)
  finally have 1: "map (view ?st') (bones[k := ?y])
     = (map (view st) bones)[k := setPosition D (map (view st) bones ! k)]" .
  have "validRefs ?st' ?y"
    by (rule validRefs_new_position [OF vk pr]) simp_all
  hence 2: "list_all (validRefs ?st') (bones[k := ?y])"
    unfolding list_all_iff using v' validRefs_prefix [OF _ pr]
    by (auto dest!: set_update_subset_insert [THEN subsetD])
  show ?thesis
    unfolding s refines_simps using 1 2 by simp
qed

text \<open>
  The recompute on the store is the recompute on the values: what \<open>updateMesh\<close> and
  \<open>calculateD_iAndTranslate\<close> return on the view of the skeleton is the view of what they
  return on the store, and the references of the bones stay within the store.
\<close>

lemma calculateD_iAndTranslate_o_refines:
  "list_all (validRefs st) bones \<Longrightarrow>
     refines bones (calculateD_iAndTranslate_o n bones st b D_parent)
       (calculateD_iAndTranslate n (map (view st) bones) b D_parent)"
  "list_all (validRefs st) bones \<Longrightarrow>
     refines bones (calculateChildren_o n bones st cs D_i)
       (calculateChildren n (map (view st) bones) cs D_i)"
proof (induction n bones st b D_parent and n bones st cs D_i
    rule: calculateD_iAndTranslate_o_calculateChildren_o.induct)
  case (1 bones st b D_parent)
  show ?case by (simp add: refines_simps)
next
  case (2 n bones st b D_parent)
  show ?case
  proof (cases "arrayAt bones b")
    case None
    thus ?thesis by (simp add: refines_simps arrayAt_map)
  next
    case (Some boneInstance)
    note arr = this
    hence k: "nat b < length bones" by (auto simp: arrayAt_def split: if_splits)
    show ?thesis
    proof (cases "calculateBranch (Suc n) (map (view st) bones) b (view st boneInstance) D_parent")
      case None
      with arr show ?thesis by (simp add: refines_simps arrayAt_map bindR_def)
    next
      case (Some r)
      note cb = this
      show ?thesis
      proof (cases r)
        case (Inl e)
        with cb arr show ?thesis by (simp add: refines_simps arrayAt_map bindR_def)
      next
        case (Inr D)
        have ih: "refines bones (calculateChildren_o n bones st (o_children boneInstance) D)
           (calculateChildren n (map (view st) bones) (o_children boneInstance) D)"
          by (rule "2.IH" [OF arr "2.prems"])
        have ch: "children (view st boneInstance) = o_children boneInstance"
          by (simp add: view_def)
        have "refines bones
           (bindR (calculateChildren_o n bones st (o_children boneInstance) D)
              (\<lambda>(bones', st'). Some (Inr (setPosition_o D (nat b) bones' st'))))
           (bindR (calculateChildren n (map (view st) bones) (o_children boneInstance) D)
              (\<lambda>bones'. Some (Inr (bones'[nat b := setPosition D (bones' ! nat b)]))))"
        proof (rule refines_bindR [OF ih])
          fix bones' st'
          assume l: "length bones' = length bones" and g: "list_all (validRefs st') bones'"
          from k l have "nat b < length bones'" by simp
          from setPosition_o_refines [OF g this]
          show "refines bones'
             (case (bones', st') of (bones', st') \<Rightarrow> Some (Inr (setPosition_o D (nat b) bones' st')))
             (Some (Inr ((map (view st') bones')[nat b :=
                setPosition D (map (view st') bones' ! nat b)])))"
            by simp
        qed
        thus ?thesis
          using cb Inr arr by (simp add: arrayAt_map ch)
      qed
    qed
  qed
next
  case (3 n bones st D_i)
  thus ?case by (simp add: refines_simps)
next
  case (4 n bones st c cs D_i)
  have "refines bones
     (bindR (calculateD_iAndTranslate_o n bones st c (Some D_i))
        (\<lambda>(bones', st'). calculateChildren_o n bones' st' cs D_i))
     (bindR (calculateD_iAndTranslate n (map (view st) bones) c (Some D_i))
        (\<lambda>bones'. calculateChildren n bones' cs D_i))"
  proof (rule refines_bindR [OF "4.IH"(1) [OF "4.prems"]])
    fix bones' st'
    assume g: "list_all (validRefs st') bones'"
    from "4.IH"(2) [OF g]
    show "refines bones'
       (case (bones', st') of (bones', st') \<Rightarrow> calculateChildren_o n bones' st' cs D_i)
       (calculateChildren n (map (view st') bones') cs D_i)"
      by simp
  qed
  thus ?case by simp
qed

end
